theory Spec2Isabelle
  imports Main
begin

section \<open>Strings\<close>

text \<open>
  The program is JavaScript (\<^verbatim>\<open>static/js/eeprom.js\<close>). A JavaScript string is a
  sequence of code units; the model takes the code units below 256, so a string is a
  \<^typ>\<open>string\<close>. Every function below treats a character only by asking whether it is
  one of a few ASCII characters or white space.
\<close>

definition LF :: char where
  "LF = CHR 0x0A"

definition CR :: char where
  "CR = CHR 0x0D"

text \<open>
  White space as \<^verbatim>\<open>String.prototype.trim\<close> and the regular expression class
  \<^verbatim>\<open>\s\<close> see it, among the code units below 256: tab, line feed, vertical tab, form
  feed, carriage return, space and the no-break space.
\<close>

definition is_space :: "char \<Rightarrow> bool" where
  "is_space c = (c \<in> set [CHR 0x09, CHR 0x0A, CHR 0x0B, CHR 0x0C, CHR 0x0D, CHR 0x20, CHR 0xA0])"

definition trim :: "string \<Rightarrow> string" where
  "trim s = rev (dropWhile is_space (rev (dropWhile is_space s)))"

text \<open>
  \<^verbatim>\<open>s.split(/\r?\n/)\<close>: the string is scanned from the left; a line feed, or a
  carriage return that a line feed follows, ends the current piece. The result always
  has at least one piece, the last one being what follows the last terminator.
\<close>

fun cons_first :: "char \<Rightarrow> string list \<Rightarrow> string list" where
  "cons_first c [] = [[c]]"
| "cons_first c (p # ps) = (c # p) # ps"

fun split_lines :: "string \<Rightarrow> string list" where
  "split_lines [] = [[]]"
| "split_lines [c] = (if c = LF then [[], []] else [[c]])"
| "split_lines (c # d # cs) =
     (if c = LF then [] # split_lines (d # cs)
      else if c = CR \<and> d = LF then [] # split_lines cs
      else cons_first c (split_lines (d # cs)))"

text \<open>
  The input with every terminator taken out: what the claims call the input
  ``modulo the consumed terminators''.
\<close>

fun strip_terminators :: "string \<Rightarrow> string" where
  "strip_terminators [] = []"
| "strip_terminators [c] = (if c = LF then [] else [c])"
| "strip_terminators (c # d # cs) =
     (if c = LF then strip_terminators (d # cs)
      else if c = CR \<and> d = LF then strip_terminators cs
      else c # strip_terminators (d # cs))"

text \<open>
  \<^verbatim>\<open>s.startsWith(p)\<close>, \<^verbatim>\<open>s.includes(p)\<close> and \<^verbatim>\<open>s.endsWith(p)\<close>.
\<close>

fun startsWith :: "string \<Rightarrow> string \<Rightarrow> bool" where
  "startsWith s [] = True"
| "startsWith [] (p # ps) = False"
| "startsWith (c # cs) (p # ps) = (c = p \<and> startsWith cs ps)"

fun str_includes :: "string \<Rightarrow> string \<Rightarrow> bool" where
  "str_includes [] p = (p = [])"
| "str_includes (c # cs) p = (startsWith (c # cs) p \<or> str_includes cs p)"

definition endsWith :: "string \<Rightarrow> string \<Rightarrow> bool" where
  "endsWith s p = startsWith (rev s) (rev p)"

text \<open>
  \<^verbatim>\<open>toLowerCase\<close> and \<^verbatim>\<open>toUpperCase\<close> on the code units below 256. The
  letters with a lower-case form are the ASCII capitals and the accented capitals
  \<open>0xC0\<close> to \<open>0xDE\<close> (all but the multiplication sign \<open>0xD7\<close>), whose lower-case
  form lies 32 places up. Upper-casing is only applied to the multiplexer letters
  \<^verbatim>\<open>a\<close> and \<^verbatim>\<open>b\<close>, so it is given for the ASCII letters.
\<close>

definition capitals :: string where
  "capitals = ''ABCDEFGHIJKLMNOPQRSTUVWXYZ'' @
     [CHR 0xC0, CHR 0xC1, CHR 0xC2, CHR 0xC3, CHR 0xC4, CHR 0xC5, CHR 0xC6, CHR 0xC7,
      CHR 0xC8, CHR 0xC9, CHR 0xCA, CHR 0xCB, CHR 0xCC, CHR 0xCD, CHR 0xCE, CHR 0xCF,
      CHR 0xD0, CHR 0xD1, CHR 0xD2, CHR 0xD3, CHR 0xD4, CHR 0xD5, CHR 0xD6, CHR 0xD8,
      CHR 0xD9, CHR 0xDA, CHR 0xDB, CHR 0xDC, CHR 0xDD, CHR 0xDE]"

definition smalls :: string where
  "smalls = ''abcdefghijklmnopqrstuvwxyz'' @
     [CHR 0xE0, CHR 0xE1, CHR 0xE2, CHR 0xE3, CHR 0xE4, CHR 0xE5, CHR 0xE6, CHR 0xE7,
      CHR 0xE8, CHR 0xE9, CHR 0xEA, CHR 0xEB, CHR 0xEC, CHR 0xED, CHR 0xEE, CHR 0xEF,
      CHR 0xF0, CHR 0xF1, CHR 0xF2, CHR 0xF3, CHR 0xF4, CHR 0xF5, CHR 0xF6, CHR 0xF8,
      CHR 0xF9, CHR 0xFA, CHR 0xFB, CHR 0xFC, CHR 0xFD, CHR 0xFE]"

definition lower_char :: "char \<Rightarrow> char" where
  "lower_char c = (case map_of (zip capitals smalls) c of None \<Rightarrow> c | Some d \<Rightarrow> d)"

definition toLowerCase :: "string \<Rightarrow> string" where
  "toLowerCase s = map lower_char s"

definition upper_char :: "char \<Rightarrow> char" where
  "upper_char c = (case map_of (zip (take 26 smalls) (take 26 capitals)) c of None \<Rightarrow> c | Some d \<Rightarrow> d)"

definition toUpperCase :: "string \<Rightarrow> string" where
  "toUpperCase s = map upper_char s"

text \<open>\<^verbatim>\<open>lines.join(' ')\<close>.\<close>

fun join :: "string \<Rightarrow> string list \<Rightarrow> string" where
  "join sep [] = []"
| "join sep [l] = l"
| "join sep (l # ls) = l @ sep @ join sep ls"

text \<open>
  A number inside a template literal: its decimal digits. The numbers printed are
  channel indices and line counts.
\<close>

definition digit_char :: "nat \<Rightarrow> char" where
  "digit_char d = ''0123456789'' ! d"

function show_nat :: "nat \<Rightarrow> string" where
  "show_nat n = (if n < 10 then [digit_char n] else show_nat (n div 10) @ [digit_char (n mod 10)])"
  by pat_completeness auto
termination
  by (relation "measure id") auto

declare show_nat.simps [simp del]

text \<open>
  Several log messages of the program start with a pictograph: one or two code units
  above 255 that are neither white space nor letters nor digits. The control character
  \<open>0x1A\<close> stands for each such code unit. \<open>dq\<close> is the double quote.
\<close>

definition pictograph :: "nat \<Rightarrow> string" where
  "pictograph n = replicate n (CHR 0x1A)"

definition dq :: string where
  "dq = [CHR 0x22]"

section \<open>Regular expressions\<close>

text \<open>
  The regular expressions of the program, as a datatype, with a matcher by derivatives:
  whether a match exists does not depend on the order in which an engine tries the
  alternatives. \<open>Cls cs\<close> is a character class, given by its members.
\<close>

datatype rx = Zero | Eps | Chr char | Cls "char list" | Seq rx rx | Alt rx rx | Star rx

fun nullable :: "rx \<Rightarrow> bool" where
  "nullable Zero = False"
| "nullable Eps = True"
| "nullable (Chr c) = False"
| "nullable (Cls cs) = False"
| "nullable (Seq r s) = (nullable r \<and> nullable s)"
| "nullable (Alt r s) = (nullable r \<or> nullable s)"
| "nullable (Star r) = True"

fun seqs :: "rx \<Rightarrow> rx \<Rightarrow> rx" where
  "seqs Zero s = Zero"
| "seqs Eps s = s"
| "seqs r s = Seq r s"

fun alts :: "rx \<Rightarrow> rx \<Rightarrow> rx" where
  "alts Zero s = s"
| "alts r Zero = r"
| "alts r s = Alt r s"

fun deriv :: "char \<Rightarrow> rx \<Rightarrow> rx" where
  "deriv c Zero = Zero"
| "deriv c Eps = Zero"
| "deriv c (Chr d) = (if c = d then Eps else Zero)"
| "deriv c (Cls ds) = (if c \<in> set ds then Eps else Zero)"
| "deriv c (Seq r s) =
     (if nullable r then alts (seqs (deriv c r) s) (deriv c s) else seqs (deriv c r) s)"
| "deriv c (Alt r s) = alts (deriv c r) (deriv c s)"
| "deriv c (Star r) = seqs (deriv c r) (Star r)"

text \<open>A match that starts at the first character (a pattern anchored with \<^verbatim>\<open>^\<close>).\<close>

fun match_prefix :: "rx \<Rightarrow> string \<Rightarrow> bool" where
  "match_prefix r [] = nullable r"
| "match_prefix r (c # cs) = (nullable r \<or> match_prefix (deriv c r) cs)"

text \<open>A match that starts anywhere: \<^verbatim>\<open>line.match(re)\<close> for a pattern without anchor.\<close>

fun search :: "rx \<Rightarrow> string \<Rightarrow> bool" where
  "search r [] = nullable r"
| "search r (c # cs) = (match_prefix r (c # cs) \<or> search r cs)"

text \<open>
  What the matcher decides: \<open>lang r\<close> is the set of the strings that \<open>r\<close> matches from
  their first to their last character.
\<close>

inductive_set repeated :: "string set \<Rightarrow> string set" for A :: "string set" where
  none: "[] \<in> repeated A"
| more: "u \<in> A \<Longrightarrow> v \<in> repeated A \<Longrightarrow> u @ v \<in> repeated A"

definition conc :: "string set \<Rightarrow> string set \<Rightarrow> string set" where
  "conc A B = {w. \<exists>u v. w = u @ v \<and> u \<in> A \<and> v \<in> B}"

fun lang :: "rx \<Rightarrow> string set" where
  "lang Zero = {}"
| "lang Eps = {[]}"
| "lang (Chr c) = {[c]}"
| "lang (Cls cs) = {w. \<exists>c. w = [c] \<and> c \<in> set cs}"
| "lang (Seq r s) = conc (lang r) (lang s)"
| "lang (Alt r s) = lang r \<union> lang s"
| "lang (Star r) = repeated (lang r)"

fun rx_times :: "nat \<Rightarrow> rx \<Rightarrow> rx" where
  "rx_times 0 r = Eps"
| "rx_times (Suc n) r = Seq r (rx_times n r)"

definition rx_plus :: "rx \<Rightarrow> rx" where
  "rx_plus r = Seq r (Star r)"

definition rx_opt :: "rx \<Rightarrow> rx" where
  "rx_opt r = Alt r Eps"

definition rx_at_least :: "nat \<Rightarrow> rx \<Rightarrow> rx" where
  "rx_at_least n r = Seq (rx_times n r) (Star r)"

fun rx_lit :: "string \<Rightarrow> rx" where
  "rx_lit [] = Eps"
| "rx_lit (c # cs) = Seq (Chr c) (rx_lit cs)"

definition rx_ws :: rx where
  "rx_ws = Cls [CHR 0x09, CHR 0x0A, CHR 0x0B, CHR 0x0C, CHR 0x0D, CHR 0x20, CHR 0xA0]"

definition rx_digit :: rx where
  "rx_digit = Cls ''0123456789''"

definition rx_hex :: rx where
  "rx_hex = Cls ''0123456789ABCDEFabcdef''"

text \<open>\<^verbatim>\<open>/^\s*[0-9A-Fa-f]{2,4}:\s+(?:[0-9A-Fa-f]{2}\s+){8,}/\<close>\<close>

definition hex_row_rx :: rx where
  "hex_row_rx =
     Seq (Star rx_ws)
      (Seq (Seq (rx_times 2 rx_hex) (Seq (rx_opt rx_hex) (rx_opt rx_hex)))
        (Seq (Chr CHR '':'')
          (Seq (rx_plus rx_ws) (rx_at_least 8 (Seq (rx_times 2 rx_hex) (rx_plus rx_ws))))))"

definition is_hex_row :: "string \<Rightarrow> bool" where
  "is_hex_row line = match_prefix hex_row_rx line"

text \<open>\<^verbatim>\<open>/>\s*sm\s+[ab]\s+\d+/\<close>\<close>

definition mux_cmd_rx :: rx where
  "mux_cmd_rx =
     Seq (Chr CHR ''>'') (Seq (Star rx_ws) (Seq (rx_lit ''sm'') (Seq (rx_plus rx_ws)
       (Seq (Cls ''ab'') (Seq (rx_plus rx_ws) (rx_plus rx_digit))))))"

text \<open>\<^verbatim>\<open>/MUX [AB], Channel \d+/\<close> and \<^verbatim>\<open>/Selected MUX [AB], Channel \d+/\<close>\<close>

definition mux_ok_rx :: rx where
  "mux_ok_rx = Seq (rx_lit ''MUX '') (Seq (Cls ''AB'') (Seq (rx_lit '', Channel '') (rx_plus rx_digit)))"

definition mux_selected_rx :: rx where
  "mux_selected_rx = Seq (rx_lit ''Selected '') mux_ok_rx"

text \<open>\<^verbatim>\<open>/>\s*hd\s+(16|64|128)/\<close>\<close>

definition dump_cmd_rx :: rx where
  "dump_cmd_rx =
     Seq (Chr CHR ''>'') (Seq (Star rx_ws) (Seq (rx_lit ''hd'') (Seq (rx_plus rx_ws)
       (Alt (rx_lit ''16'') (Alt (rx_lit ''64'') (rx_lit ''128''))))))"

section \<open>The module state\<close>

text \<open>
  The module-level variables of \<^verbatim>\<open>eeprom.js\<close>. \<open>port\<close> holds the handle of the open
  port or is null; the stream objects carry nothing the program reads, so each is
  modelled by whether the variable is set. Two fields are not variables of the program:
  \<open>actions\<close> records, in order, the calls made on the transport, and \<open>reading\<close> says
  whether a read loop is suspended in \<^verbatim>\<open>reader.read()\<close>.
\<close>

datatype action =
    ReaderCancel
  | WriterClose
  | PortClose nat
  | PortOpen nat
  | RequestPort
  | SetSignals bool bool
  | Write string

record session =
  LOG_LINES :: "string list"
  port :: "nat option"
  reader :: bool
  writer :: bool
  textDecoder :: bool
  textEncoder :: bool
  readableStreamClosed :: bool
  writableStreamClosed :: bool
  isConnecting :: bool
  lineBuffer :: string
  actions :: "action list"
  reading :: bool

definition logLine :: "string \<Rightarrow> session \<Rightarrow> session" where
  "logLine message s = s\<lparr>LOG_LINES := LOG_LINES s @ [message]\<rparr>"

definition act :: "action \<Rightarrow> session \<Rightarrow> session" where
  "act a s = s\<lparr>actions := actions s @ [a]\<rparr>"

section \<open>Stream pipeline: \<^verbatim>\<open>readLoop\<close>\<close>

text \<open>
  The \<^verbatim>\<open>for\<close> loop over \<^verbatim>\<open>lines\<close>: every piece but the last is trimmed and, when
  something is left of it, logged.
\<close>

fun log_complete :: "string list \<Rightarrow> session \<Rightarrow> session" where
  "log_complete [] s = s"
| "log_complete [fragment] s = s"
| "log_complete (l # ls) s =
     log_complete ls (if trim l \<noteq> [] then logLine (trim l) s else s)"

text \<open>The body of \<^verbatim>\<open>if (value) { ... }\<close>; the empty string is falsy.\<close>

definition on_value :: "string \<Rightarrow> session \<Rightarrow> session" where
  "on_value v s =
     (if v = [] then s
      else
        let s1 = s\<lparr>lineBuffer := lineBuffer s @ v\<rparr>;
            lines = split_lines (lineBuffer s1);
            s2 = log_complete lines s1
        in s2\<lparr>lineBuffer := last lines\<rparr>)"

text \<open>
  What \<^verbatim>\<open>reader.read()\<close> gives: a chunk, the end of the stream, or an error.
\<close>

datatype read_result = Value string | Done | Throws string

text \<open>
  The loop from the point where it is suspended in a read, run on the results of this
  read and of the reads that follow. The result of the read in flight is handled
  whatever has become of \<^verbatim>\<open>port\<close> and \<^verbatim>\<open>reader\<close> in the meantime; the condition
  of the \<^verbatim>\<open>while\<close> is tested after it, before the next read is issued. When the
  results are used up the loop is still suspended.
\<close>

fun pending_read :: "read_result list \<Rightarrow> session \<Rightarrow> session" where
  "pending_read [] s = s"
| "pending_read (r # rs) s =
     (case r of
        Done \<Rightarrow> s\<lparr>reading := False\<rparr>
      | Throws m \<Rightarrow> (logLine (''Read error: '' @ m) s)\<lparr>reading := False\<rparr>
      | Value v \<Rightarrow>
          let s' = on_value v s
          in if port s' = None \<or> \<not> reader s' then s'\<lparr>reading := False\<rparr>
             else pending_read rs s')"

text \<open>
  A call of \<^verbatim>\<open>readLoop()\<close>: the condition of the \<^verbatim>\<open>while\<close> is tested and, when it
  holds, the first read is issued.
\<close>

definition readLoop :: "read_result list \<Rightarrow> session \<Rightarrow> session" where
  "readLoop rs s =
     (if port s = None \<or> \<not> reader s then s else pending_read rs (s\<lparr>reading := True\<rparr>))"

text \<open>The lines the loop logs for the pieces of one split.\<close>

definition emitted :: "string list \<Rightarrow> string list" where
  "emitted pieces = filter (\<lambda>l. l \<noteq> []) (map trim (butlast pieces))"

text \<open>
  A session with a port open, its streams set up and the read loop suspended in its
  first read.
\<close>

definition connected0 :: session where
  "connected0 = \<lparr>LOG_LINES = [], port = Some 0, reader = True, writer = True,
     textDecoder = True, textEncoder = True, readableStreamClosed = True,
     writableStreamClosed = True, isConnecting = False, lineBuffer = [], actions = [],
     reading = True\<rparr>"

section \<open>Command/response coordinator\<close>

text \<open>
  While a function is suspended in an \<^verbatim>\<open>await\<close>, a read loop that is suspended in a
  read goes on: it takes the chunks that arrive and logs their lines. \<open>resumed rs\<close> is
  what the loop does with the results \<open>rs\<close> of its reads during one such suspension,
  \<open>received chunks\<close> the same when all of them are chunks. Without a loop nothing is
  read.
\<close>

definition resumed :: "read_result list \<Rightarrow> session \<Rightarrow> session" where
  "resumed rs s = (if reading s then pending_read rs s else s)"

definition received :: "string list \<Rightarrow> session \<Rightarrow> session" where
  "received chunks s = resumed (map Value chunks) s"

text \<open>
  What the environment does during one call of \<^verbatim>\<open>sendCommand\<close>: whether
  \<^verbatim>\<open>writer.write\<close> rejects (with which message), and the chunks that arrive while
  the write is awaited and during the 100 ms that follow.
\<close>

record send_env =
  write_error :: "string option"
  during_write :: "string list"
  during_delay :: "string list"

definition sendCommand :: "string \<Rightarrow> send_env \<Rightarrow> session \<Rightarrow> bool \<times> session" where
  "sendCommand command e s =
     (if port s = None \<or> \<not> writer s \<or> isConnecting s
      then (False, logLine ''Error: Not connected to any port.'' s)
      else
        let s1 = received (during_write e) (act (Write (command @ [CR, LF])) s)
        in case write_error e of
             Some m \<Rightarrow> (False, logLine (''Write error: '' @ m) s1)
           | None \<Rightarrow> (True, logLine (''> '' @ command) (received (during_delay e) s1)))"

text \<open>
  \<^verbatim>\<open>waitForPrompt\<close>. The callback of \<^verbatim>\<open>setInterval\<close> runs once per tick; a tick
  carries the chunks that arrived since the one before and the reading of
  \<^verbatim>\<open>Date.now()\<close>. The function is run on the ticks that have happened so far: the
  result is the session at the tick that resolves the promise, or \<open>None\<close> when none of
  them does and the wait is still on.
\<close>

definition recentLines :: "string list \<Rightarrow> string list" where
  "recentLines log = drop (length log - 10) log"

definition isPromptLine :: "string \<Rightarrow> bool" where
  "isPromptLine line = (endsWith (trim line) ''>'' \<or> str_includes line ''$'')"

definition hasPrompt :: "string list \<Rightarrow> bool" where
  "hasPrompt log = list_ex isPromptLine (recentLines log)"

definition tick_resolves :: "int \<Rightarrow> int \<Rightarrow> string list \<Rightarrow> int \<Rightarrow> bool" where
  "tick_resolves timeoutMs startTime log now = (hasPrompt log \<or> now - startTime > timeoutMs)"

record tick =
  arrived :: "string list"
  clock :: int

fun waitForPrompt :: "int \<Rightarrow> int \<Rightarrow> tick list \<Rightarrow> session \<Rightarrow> session option" where
  "waitForPrompt timeoutMs startTime [] s = None"
| "waitForPrompt timeoutMs startTime (t # ts) s =
     (let s' = received (arrived t) s
      in if tick_resolves timeoutMs startTime (LOG_LINES s') (clock t) then Some s'
         else waitForPrompt timeoutMs startTime ts s')"

section \<open>Connection manager\<close>

text \<open>
  A step of a \<^verbatim>\<open>try\<close> block: it returns the session it leaves and, when it throws,
  the message of the error. \<open>seqE f g\<close> runs \<open>g\<close> after \<open>f\<close> unless \<open>f\<close> throws.
\<close>

type_synonym step = "session \<Rightarrow> string option \<times> session"

definition seqE :: "step \<Rightarrow> step \<Rightarrow> step" where
  "seqE f g s = (case f s of (Some m, s') \<Rightarrow> (Some m, s') | (None, s') \<Rightarrow> g s')"

definition pause :: "string list \<Rightarrow> step" where
  "pause chunks s = (None, received chunks s)"

definition say :: "string \<Rightarrow> step" where
  "say message s = (None, logLine message s)"

subsection \<open>\<^verbatim>\<open>disconnectPort\<close>\<close>

text \<open>
  The environment of one teardown: which of \<^verbatim>\<open>reader.cancel()\<close>,
  \<^verbatim>\<open>writer.close()\<close> and \<^verbatim>\<open>port.close()\<close> reject, and the chunks that still arrive
  while the cancellation is awaited. A cancellation that succeeds ends the read in
  flight with \<^verbatim>\<open>done\<close>. The two awaits of the pipe promises carry
  \<^verbatim>\<open>.catch(() => {})\<close> and cannot throw. The handling of the buttons is left out.
\<close>

record disconnect_env =
  cancel_error :: "string option"
  during_cancel :: "string list"
  writer_close_error :: "string option"
  port_close_error :: "string option"

definition cancel_reader :: "disconnect_env \<Rightarrow> step" where
  "cancel_reader e s =
     (if reader s then
        let s1 = received (during_cancel e) (act ReaderCancel s)
        in case cancel_error e of
             Some m \<Rightarrow> (Some m, s1)
           | None \<Rightarrow> (None, (resumed [Done] s1)\<lparr>reader := False\<rparr>)
      else (None, s))"

definition await_readable :: step where
  "await_readable s =
     (None, if readableStreamClosed s then s\<lparr>readableStreamClosed := False\<rparr> else s)"

definition close_writer :: "disconnect_env \<Rightarrow> step" where
  "close_writer e s =
     (if writer s then
        let s1 = act WriterClose s
        in case writer_close_error e of
             Some m \<Rightarrow> (Some m, s1)
           | None \<Rightarrow> (None, s1\<lparr>writer := False\<rparr>)
      else (None, s))"

definition await_writable :: step where
  "await_writable s =
     (None, if writableStreamClosed s then s\<lparr>writableStreamClosed := False\<rparr> else s)"

definition clear_streams :: step where
  "clear_streams s = (None, s\<lparr>textDecoder := False, textEncoder := False\<rparr>)"

definition close_port :: "disconnect_env \<Rightarrow> nat \<Rightarrow> step" where
  "close_port e p s =
     (let s1 = act (PortClose p) s
      in case port_close_error e of
           Some m \<Rightarrow> (Some m, s1)
         | None \<Rightarrow> (None, logLine ''Disconnected from serial port.'' s1))"

definition teardown :: "disconnect_env \<Rightarrow> nat \<Rightarrow> step" where
  "teardown e p =
     seqE (cancel_reader e) (seqE await_readable (seqE (close_writer e)
       (seqE await_writable (seqE clear_streams (close_port e p)))))"

definition disconnectPort :: "disconnect_env \<Rightarrow> session \<Rightarrow> session" where
  "disconnectPort e s =
     (case port s of
        None \<Rightarrow> s
      | Some p \<Rightarrow>
          let s1 = (case teardown e p s of
                      (Some m, s') \<Rightarrow> logLine (''Error disconnecting: '' @ m) s'
                    | (None, s') \<Rightarrow> s')
          in s1\<lparr>port := None, isConnecting := False\<rparr>)"

subsection \<open>\<^verbatim>\<open>setupSerialStreams\<close>\<close>

text \<open>
  The six assignments of the \<^verbatim>\<open>try\<close> block, in order. When the block throws, it
  does so after some of them: \<open>Some (k, m)\<close> says that \<open>k\<close> assignments were made
  before the error \<open>m\<close>. The call of \<^verbatim>\<open>readLoop()\<close> that ends the block starts the
  loop, which stays suspended in its first read: no read has a result yet.
\<close>

definition stream_assignments :: "(session \<Rightarrow> session) list" where
  "stream_assignments =
     [\<lambda>s. s\<lparr>textDecoder := True\<rparr>,
      \<lambda>s. s\<lparr>readableStreamClosed := True\<rparr>,
      \<lambda>s. s\<lparr>reader := True\<rparr>,
      \<lambda>s. s\<lparr>textEncoder := True\<rparr>,
      \<lambda>s. s\<lparr>writableStreamClosed := True\<rparr>,
      \<lambda>s. s\<lparr>writer := True\<rparr>]"

definition setupSerialStreams :: "(nat \<times> string) option \<Rightarrow> session \<Rightarrow> session" where
  "setupSerialStreams err s =
     (if port s = None then s
      else case err of
          None \<Rightarrow> readLoop [] (fold (\<lambda>f. f) stream_assignments s)
        | Some (k, m) \<Rightarrow>
            logLine (''Error setting up communication: '' @ m)
              (fold (\<lambda>f. f) (take k stream_assignments) s))"

subsection \<open>\<^verbatim>\<open>performCLIHandshake\<close>\<close>

text \<open>
  A write on \<^verbatim>\<open>writer\<close> outside \<^verbatim>\<open>sendCommand\<close>. When no writer is set the call
  throws a \<^verbatim>\<open>TypeError\<close>.
\<close>

definition null_writer_message :: string where
  "null_writer_message = ''Cannot read properties of null (reading 'write')''"

definition write_raw :: "string \<Rightarrow> string option \<Rightarrow> step" where
  "write_raw text err s =
     (if \<not> writer s then (Some null_writer_message, s)
      else
        let s1 = act (Write text) s
        in case err of Some m \<Rightarrow> (Some m, s1) | None \<Rightarrow> (None, s1))"

record handshake_env =
  wake_error :: "string option"
  wake_chunks :: "string list"
  help_error :: "string option"
  help_chunks :: "string list"
  ver_error :: "string option"
  ver_chunks :: "string list"
  dtr_error :: "string option"
  dtr_chunks :: "string list"
  rts_error :: "string option"
  rts_chunks :: "string list"

definition responsive :: "string \<Rightarrow> bool" where
  "responsive line =
     (str_includes line ''Token:'' \<or> str_includes line ''$'' \<or> str_includes line ''Selected''
      \<or> str_includes line ''MUX'' \<or> str_includes line ''help'' \<or> str_includes line ''version''
      \<or> (length (trim line) > 0 \<and> \<not> startsWith line ''>''))"

text \<open>The toggle of the DTR and RTS lines, with its own \<^verbatim>\<open>try\<close> and \<^verbatim>\<open>catch\<close>.\<close>

definition toggle_signals :: "handshake_env \<Rightarrow> session \<Rightarrow> session" where
  "toggle_signals e s =
     (let s1 = act (SetSignals True False) s
      in case dtr_error e of
           Some m \<Rightarrow> logLine (''Signal toggle failed: '' @ m) s1
         | None \<Rightarrow>
             let s2 = act (SetSignals False True) (received (dtr_chunks e) s1)
             in case rts_error e of
                  Some m \<Rightarrow> logLine (''Signal toggle failed: '' @ m) s2
                | None \<Rightarrow> received (rts_chunks e) s2)"

definition report_responses :: "nat \<Rightarrow> handshake_env \<Rightarrow> step" where
  "report_responses beforeLength e s =
     (let newLines = drop beforeLength (LOG_LINES s);
          responsiveLines = filter responsive newLines
      in if length responsiveLines > 0 then
           (None,
            fold (\<lambda>line. logLine (pictograph 2 @ '' Response: '' @ dq @ line @ dq))
              (take 3 responsiveLines)
              (logLine (pictograph 1 @ '' Device is responding! Got ''
                 @ show_nat (length responsiveLines) @ '' response lines'') s))
         else
           (None,
            toggle_signals e
              (logLine ''Attempting to wake device with DTR/RTS toggle...''
                (logLine ''This may indicate firmware issues or wrong port''
                  (logLine (pictograph 2 @ '' Device not responding to probe commands'') s)))))"

definition performCLIHandshake :: "handshake_env \<Rightarrow> step" where
  "performCLIHandshake e s =
     (let s0 = s\<lparr>lineBuffer := []\<rparr>;
          beforeLength = length (LOG_LINES s0)
      in seqE (say ''Sending wake-up sequence...'')
          (seqE (write_raw [LF, LF] (wake_error e))
          (seqE (pause (wake_chunks e))
          (seqE (say ''Testing CLI responsiveness with probe commands...'')
          (seqE (write_raw (''help'' @ [CR, LF]) (help_error e))
          (seqE (pause (help_chunks e))
          (seqE (write_raw (''ver'' @ [CR, LF]) (ver_error e))
          (seqE (pause (ver_chunks e))
                (report_responses beforeLength e)))))))) s0)"

subsection \<open>\<^verbatim>\<open>listPorts\<close> and \<^verbatim>\<open>connectToPort\<close>\<close>

text \<open>
  \<^verbatim>\<open>listPorts\<close> fills the drop-down list and logs one line: the number of ports
  granted before, or the error of \<^verbatim>\<open>getPorts()\<close>, which it catches.
\<close>

definition listPorts :: "string + nat \<Rightarrow> session \<Rightarrow> session" where
  "listPorts granted s =
     (case granted of
        Inl m \<Rightarrow> logLine (''Error listing ports: '' @ m) s
      | Inr n \<Rightarrow>
          if n = 0 then
            logLine (''No previously granted ports found. Click '' @ dq @ ''Refresh Ports'' @ dq
              @ '' to request access.'') s
          else logLine (''Found '' @ show_nat n @ '' previously granted port(s).'') s)"

text \<open>
  The drop-down list \<^verbatim>\<open>comPortSelect\<close>: for each entry its \<^verbatim>\<open>port\<close> property
  (the first entry, ``Select COM Port'', has none) and the index of the selected entry,
  which is \<open>-1\<close> when none is selected. The program gets the list with
  \<^verbatim>\<open>document.getElementById\<close>, which gives null when the page has no such
  element; \<^verbatim>\<open>listPorts\<close> tests for that.
\<close>

record dropdown =
  options :: "nat option list"
  selectedIndex :: int

text \<open>
  The environment of one call of \<^verbatim>\<open>connectToPort\<close>. The handling of the buttons is
  left out.
\<close>

record connect_env =
  teardown_env :: disconnect_env
  request_result :: "string + nat"
  granted_ports :: "string + nat"
  selected_readable :: bool
  close_error :: "string option"
  open_error :: "string option"
  setup_error :: "(nat \<times> string) option"
  handshake :: handshake_env

definition close_if_open :: "nat \<Rightarrow> connect_env \<Rightarrow> step" where
  "close_if_open p e s =
     (if selected_readable e then
        let s1 = act (PortClose p) (logLine ''Port appears to be already open. Closing first...'' s)
        in case close_error e of Some m \<Rightarrow> (Some m, s1) | None \<Rightarrow> (None, s1)
      else (None, s))"

definition open_port :: "nat \<Rightarrow> connect_env \<Rightarrow> step" where
  "open_port p e s =
     (let s1 = act (PortOpen p) (logLine ''Opening serial connection...'' s)
      in case open_error e of Some m \<Rightarrow> (Some m, s1) | None \<Rightarrow> (None, s1))"

definition bring_up :: "nat \<Rightarrow> connect_env \<Rightarrow> step" where
  "bring_up p e s =
     (let s1 = s\<lparr>port := Some p\<rparr>;
          s2 = logLine (pictograph 1 @ '' Connected to serial port at 115200 baud.'') s1;
          s3 = logLine (pictograph 1 @ '' Waiting for Arduino to initialize (2 seconds)...'') s2;
          s4 = setupSerialStreams (setup_error e) s3;
          s5 = s4\<lparr>isConnecting := False\<rparr>;
          s6 = logLine (pictograph 1 @ '' Serial connection established.'') s5;
          s7 = logLine (pictograph 2 @ '' Testing device responsiveness...'') s6
      in seqE (performCLIHandshake (handshake e))
          (seqE (say (pictograph 2 @ '' Firmware ready for EEPROM operations''))
          (seqE (say (pictograph 1 @ '' Device initialization completed.''))
          (seqE (say (pictograph 2 @ '' Connection established successfully!''))
                (say (''You can now click '' @ dq @ ''Read Circuit from Board'' @ dq
                   @ '' to scan for components.''))))) s7)"

text \<open>The \<^verbatim>\<open>catch\<close> block of \<^verbatim>\<open>connectToPort\<close>.\<close>

definition on_connect_error :: "string \<Rightarrow> session \<Rightarrow> session" where
  "on_connect_error m s =
     (let s1 = logLine (pictograph 1 @ '' Error opening port: '' @ m) s;
          s2 = (if str_includes m ''Failed to open serial port'' then
                  logLine (pictograph 2 @ '' Try: 1) Check if another program is using the port 2) Unplug and reconnect the Arduino 3) Select a different port'') s1
                else if str_includes m ''not found'' then
                  logLine (pictograph 2 @ '' Port not found. Try refreshing ports or reconnecting the Arduino.'') s1
                else s1)
      in s2\<lparr>port := None, isConnecting := False\<rparr>)"

text \<open>
  The \<^verbatim>\<open>try\<close> block and its \<^verbatim>\<open>catch\<close>. \<open>selectedPort\<close> is \<open>None\<close> when the
  selected entry has no \<^verbatim>\<open>port\<close> property: then reading
  \<^verbatim>\<open>selectedPort.readable\<close> throws inside the block.
\<close>

definition undefined_readable_message :: string where
  "undefined_readable_message = ''Cannot read properties of undefined (reading 'readable')''"

definition open_selected :: "nat option \<Rightarrow> connect_env \<Rightarrow> session \<Rightarrow> session" where
  "open_selected selectedPort e s =
     (case selectedPort of
        None \<Rightarrow> on_connect_error undefined_readable_message s
      | Some p \<Rightarrow>
          (case seqE (close_if_open p e) (seqE (open_port p e) (bring_up p e)) s of
             (Some m, s') \<Rightarrow> on_connect_error m s'
           | (None, s') \<Rightarrow> s'))"

text \<open>
  \<^verbatim>\<open>connectToPort\<close>. The result tells whether the call ended by an exception that
  nothing caught (the promise of the \<^verbatim>\<open>async\<close> function is rejected). The drop-down
  list is read after \<^verbatim>\<open>isConnecting = true\<close> and outside the \<^verbatim>\<open>try\<close> blocks:
  reading \<^verbatim>\<open>comPortSelect.options\<close> throws when the list is null, and reading
  \<^verbatim>\<open>selectedOption.port\<close> throws when the selected index names no entry.
\<close>

definition null_select_message :: string where
  "null_select_message = ''Cannot read properties of null (reading 'options')''"

definition undefined_option_message :: string where
  "undefined_option_message = ''Cannot read properties of undefined (reading 'port')''"

definition connectToPort :: "dropdown option \<Rightarrow> connect_env \<Rightarrow> step" where
  "connectToPort comPortSelect e s =
     (if isConnecting s then (None, logLine ''Connection already in progress...'' s)
      else
        let s1 = (if port s \<noteq> None then
                    disconnectPort (teardown_env e)
                      (logLine ''Already connected to a port. Disconnecting first...'' s)
                  else s);
            s2 = s1\<lparr>isConnecting := True\<rparr>
        in case comPortSelect of
             None \<Rightarrow> (Some null_select_message, s2)
           | Some sel \<Rightarrow>
               if length (options sel) = 0 \<or> selectedIndex sel = 0 then
                 (let s3 = act RequestPort (logLine ''Requesting port access...'' s2)
                  in case request_result e of
                       Inl m \<Rightarrow>
                         (None,
                          (logLine ''Port selection cancelled or failed.'' s3)
                            \<lparr>isConnecting := False\<rparr>)
                     | Inr p \<Rightarrow>
                         (None,
                          open_selected (Some p) e
                            (listPorts (granted_ports e)
                              (logLine ''Port selected via dialog.'' s3))))
               else if selectedIndex sel < 0 \<or> int (length (options sel)) \<le> selectedIndex sel
               then (Some undefined_option_message, s2)
               else
                 (None,
                  open_selected (options sel ! nat (selectedIndex sel)) e
                    (logLine ''Attempting to connect to selected port...'' s2)))"

section \<open>Scan orchestrator: \<^verbatim>\<open>readBoardConfiguration\<close>\<close>

text \<open>
  The scan waits with \<^verbatim>\<open>waitForPrompt\<close> and with fixed delays. Every wait ends, at
  the latest when its timeout has run out, and what the scan sees of a wait that has
  ended is the chunks that arrived during it. The environment of one channel gives these
  chunks for each wait of the loop body, and a \<open>send_env\<close> for each command.
\<close>

record channel_env =
  select_send :: send_env
  select_wait :: "string list"
  read_send :: send_env
  read_wait :: "string list"
  read_settle :: "string list"
  dump_send :: send_env
  dump_wait :: "string list"
  retry_delay :: "string list"
  retry_send :: send_env
  retry_wait :: "string list"
  channel_settle :: "string list"

text \<open>\<^verbatim>\<open>LOG_LINES.slice(-3)\<close>\<close>

definition last3 :: "string list \<Rightarrow> string list" where
  "last3 log = drop (length log - 3) log"

text \<open>
  The select command and the check for a failed selection. The result says whether the
  loop body goes on (\<open>True\<close>) or reaches a \<^verbatim>\<open>continue\<close>.
\<close>

definition select_channel :: "string \<Rightarrow> nat \<Rightarrow> channel_env \<Rightarrow> session \<Rightarrow> bool \<times> session" where
  "select_channel mux channel e s =
     (let s0 = logLine (LF # ''--- MUX '' @ toUpperCase mux @ '', Channel '' @ show_nat channel @ '' ---'') s;
          selectCmd = ''sm '' @ mux @ '' '' @ show_nat channel
      in case sendCommand selectCmd (select_send e) s0 of
           (False, s1) \<Rightarrow> (False, s1)
         | (True, s1) \<Rightarrow>
             let s2 = received (select_wait e) s1;
                 recentLog = toLowerCase (join '' '' (last3 (LOG_LINES s2)))
             in if str_includes recentLog ''error'' \<or> str_includes recentLog ''fail''
                then (False, logLine (''Skipping channel '' @ show_nat channel @ '' - MUX selection failed'') s2)
                else (True, s2))"

definition read_into_buffer :: "channel_env \<Rightarrow> session \<Rightarrow> session" where
  "read_into_buffer e s =
     (let s1 = logLine ''Reading EEPROM data into buffer...'' s;
          s2 = snd (sendCommand ''er 0 64'' (read_send e) s1)
      in received (read_settle e) (received (read_wait e) s2))"

text \<open>The first hex dump: the command and the wait for its prompt.\<close>

definition first_dump :: "channel_env \<Rightarrow> session \<Rightarrow> session" where
  "first_dump e s = received (dump_wait e) (snd (sendCommand ''hd 0 16'' (dump_send e) s))"

definition count_hex_rows :: "string list \<Rightarrow> nat" where
  "count_hex_rows log = length (filter is_hex_row log)"

definition dump_with_retry :: "channel_env \<Rightarrow> session \<Rightarrow> session" where
  "dump_with_retry e s =
     (let hexLinesBefore = count_hex_rows (LOG_LINES s);
          s1 = first_dump e s;
          hexLinesAfter = count_hex_rows (LOG_LINES s1)
      in if hexLinesAfter = hexLinesBefore then
           let s2 = received (retry_delay e) (logLine ''First attempt failed, retrying...'' s1);
               s3 = snd (sendCommand ''hd 0 16'' (retry_send e) s2)
           in received (retry_wait e) s3
         else s1)"

definition scan_channel :: "string \<Rightarrow> nat \<Rightarrow> channel_env \<Rightarrow> session \<Rightarrow> session" where
  "scan_channel mux channel e s =
     (case select_channel mux channel e s of
        (False, s1) \<Rightarrow> s1
      | (True, s1) \<Rightarrow>
          received (channel_settle e) (dump_with_retry e (read_into_buffer e s1)))"

definition muxChannels :: "string list" where
  "muxChannels = [''a'', ''b'']"

definition channelRange :: "nat list" where
  "channelRange = [0..<16]"

definition scan_mux :: "(string \<Rightarrow> nat \<Rightarrow> channel_env) \<Rightarrow> string \<Rightarrow> session \<Rightarrow> session" where
  "scan_mux envs mux s =
     fold (\<lambda>channel. scan_channel mux channel (envs mux channel)) channelRange
       (logLine (LF # ''=== Scanning MUX '' @ toUpperCase mux @ '' ==='') s)"

text \<open>
  The two nested loops of \<^verbatim>\<open>readBoardConfiguration\<close>, from the first multiplexer to
  the line that reports the end of the scan.
\<close>

definition sweep :: "(string \<Rightarrow> nat \<Rightarrow> channel_env) \<Rightarrow> session \<Rightarrow> session" where
  "sweep envs s =
     logLine (LF # ''=== Board scan completed ==='') (fold (scan_mux envs) muxChannels s)"

text \<open>
  \<^verbatim>\<open>initializeI2CBus\<close>: five commands, each followed by a delay of 300 ms;
  \<^verbatim>\<open>sendCommand\<close> catches its own errors, so the \<^verbatim>\<open>catch\<close> of the loop body is
  never entered.
\<close>

definition initCommands :: "string list" where
  "initCommands = [''i2c begin'', ''i2c speed 400000'', ''eeprom init'', ''eeprom addr 0x50'', ''scan'']"

record init_env =
  init_send :: "nat \<Rightarrow> send_env"
  init_delay :: "nat \<Rightarrow> string list"
  init_settle :: "string list"

definition initializeI2CBus :: "init_env \<Rightarrow> session \<Rightarrow> session" where
  "initializeI2CBus e s =
     (let s1 = fold (\<lambda>(i, cmd) s.
                   received (init_delay e i)
                     (snd (sendCommand cmd (init_send e i) (logLine (''Sending: '' @ cmd) s))))
                 (enumerate 0 initCommands)
                 (logLine ''Initializing I2C bus and EEPROM systems...'' s)
      in logLine ''I2C initialization sequence completed'' (received (init_settle e) s1))"

text \<open>
  \<^verbatim>\<open>readBoardConfiguration\<close> up to the end of the sweep. The hand-over of the
  transcript to the backend that follows is outside the model.
\<close>

record scan_env =
  init :: init_env
  channels :: "string \<Rightarrow> nat \<Rightarrow> channel_env"

definition readBoardConfiguration :: "scan_env \<Rightarrow> session \<Rightarrow> session" where
  "readBoardConfiguration e s =
     (if port s = None then s
      else
        let s0 = s\<lparr>LOG_LINES := []\<rparr>;
            s1 = logLine ''Starting board configuration read...'' s0;
            s2 = logLine ''This will scan all MUX channels for component data.'' s1;
            s3 = initializeI2CBus (init e) s2;
            s4 = logLine ''I2C bus initialized successfully - ready for fast EEPROM reads'' s3
        in sweep (channels e) s4)"

section \<open>Diagnostic analyzer: \<^verbatim>\<open>analyzeScanFailure\<close>\<close>

record tally =
  totalMuxCommands :: nat
  successfulMuxCommands :: nat
  totalHexDumps :: nat
  successfulHexDumps :: nat
  hexDataFound :: nat
  failLines :: nat
  currentHexDumpHasData :: bool

definition tally0 :: tally where
  "tally0 = \<lparr>totalMuxCommands = 0, successfulMuxCommands = 0, totalHexDumps = 0,
     successfulHexDumps = 0, hexDataFound = 0, failLines = 0, currentHexDumpHasData = False\<rparr>"

definition is_select_cmd :: "string \<Rightarrow> bool" where
  "is_select_cmd line = search mux_cmd_rx line"

definition is_select_ack :: "string \<Rightarrow> bool" where
  "is_select_ack line = (search mux_ok_rx line \<or> search mux_selected_rx line)"

definition is_dump_cmd :: "string \<Rightarrow> bool" where
  "is_dump_cmd line = search dump_cmd_rx line"

text \<open>The body of the loop over \<^verbatim>\<open>LOG_LINES\<close>: five tests, one after the other.\<close>

definition count_line :: "string \<Rightarrow> tally \<Rightarrow> tally" where
  "count_line line t =
     (let t1 = (if is_select_cmd line then t\<lparr>totalMuxCommands := totalMuxCommands t + 1\<rparr> else t);
          t2 = (if is_select_ack line
                then t1\<lparr>successfulMuxCommands := successfulMuxCommands t1 + 1\<rparr> else t1);
          t3 = (if is_dump_cmd line then
                  let u = (if totalHexDumps t2 > 0 \<and> currentHexDumpHasData t2
                           then t2\<lparr>successfulHexDumps := successfulHexDumps t2 + 1\<rparr> else t2)
                  in u\<lparr>totalHexDumps := totalHexDumps u + 1, currentHexDumpHasData := False\<rparr>
                else t2);
          t4 = (if trim line = ''fail'' then t3\<lparr>failLines := failLines t3 + 1\<rparr> else t3)
      in if is_hex_row line
         then t4\<lparr>hexDataFound := hexDataFound t4 + 1, currentHexDumpHasData := True\<rparr>
         else t4)"

text \<open>The loop, and the statement after it that closes the last hex dump.\<close>

definition tally_log :: "string list \<Rightarrow> tally" where
  "tally_log log =
     (let t = fold count_line log tally0
      in if totalHexDumps t > 0 \<and> currentHexDumpHasData t
         then t\<lparr>successfulHexDumps := successfulHexDumps t + 1\<rparr> else t)"

text \<open>
  The function reports its diagnosis by the lines it logs. The three branches of its
  last \<^verbatim>\<open>if\<close> are the classifications \<open>NoDeviceResponse\<close> (``No EEPROMs are
  responding to read commands''), \<open>NoHardwareDetected\<close> (``No hardware communication
  detected'') and \<open>PartialOrIntermittent\<close> (``Mixed communication results''); no branch
  reports a healthy board.
\<close>

datatype diagnosis = NoDeviceResponse | NoHardwareDetected | PartialOrIntermittent

definition diagnose :: "tally \<Rightarrow> diagnosis" where
  "diagnose t =
     (if successfulMuxCommands t > 0 \<and> successfulHexDumps t = 0 then NoDeviceResponse
      else if totalMuxCommands t = 0 then NoHardwareDetected
      else PartialOrIntermittent)"

definition status_lines :: "tally \<Rightarrow> string list" where
  "status_lines t =
     [''Hardware Communication Status:'',
      ''  '' @ pictograph 1 @ '' MUX Commands: '' @ show_nat (successfulMuxCommands t) @ ''/''
        @ show_nat (totalMuxCommands t) @ '' successful'',
      ''  '' @ pictograph 1 @ '' Hex Dump Commands: '' @ show_nat (successfulHexDumps t) @ ''/''
        @ show_nat (totalHexDumps t) @ '' successful'',
      ''  '' @ pictograph 1 @ '' Hex Data Lines Found: '' @ show_nat (hexDataFound t),
      LF # ''Diagnosis:'']"

fun diagnosis_lines :: "diagnosis \<Rightarrow> string list" where
  "diagnosis_lines NoDeviceResponse =
     [pictograph 1 @ '' ISSUE: No EEPROMs are responding to read commands'',
      '''',
      ''Possible causes:'',
      ''  1. No EEPROMs are physically connected to any MUX channels'',
      ''  2. EEPROMs are connected but not properly wired (VCC, GND, SDA, SCL)'',
      ''  3. EEPROMs are faulty or damaged'',
      ''  4. Wrong EEPROM type (expecting 11AA010 or compatible)'',
      ''  5. I2C address conflicts or wiring issues'',
      '''',
      ''Next Steps:'',
      ''  '' @ pictograph 1 @ '' Check physical EEPROM connections on your Cell Board'',
      ''  '' @ pictograph 1 @ '' Verify EEPROM power (3.3V) and I2C wiring'',
      ''  '' @ pictograph 1 @ '' Test with a known-good EEPROM programmed with component data'',
      ''  '' @ pictograph 1 @ '' Use an I2C scanner to verify EEPROM addresses'']"
| "diagnosis_lines NoHardwareDetected =
     [pictograph 1 @ '' ISSUE: No hardware communication detected'',
      '''',
      ''Possible causes:'',
      ''  '' @ pictograph 1 @ '' Serial port not connected properly'',
      ''  '' @ pictograph 1 @ '' Wrong baud rate or communication settings'',
      ''  '' @ pictograph 1 @ '' Hardware not powered on'']"
| "diagnosis_lines PartialOrIntermittent =
     [pictograph 2 @ ''  PARTIAL ISSUE: Mixed communication results'',
      '''',
      ''Some commands work but data reading is inconsistent.'',
      ''This suggests intermittent connection or hardware issues.'']"

definition analysis_header :: string where
  "analysis_header = LF # ''=== DIAGNOSTIC ANALYSIS ===''"

definition analyzeScanFailure :: "session \<Rightarrow> diagnosis \<times> session" where
  "analyzeScanFailure s =
     (let s0 = logLine analysis_header s;
          t = tally_log (LOG_LINES s0);
          s1 = fold logLine (status_lines t) s0;
          d = diagnose t
      in (d, fold logLine (diagnosis_lines d) s1))"

text \<open>
  The counts in the words of the specification. A dump command ``produced'' the hex rows
  found from its own line up to the line before the next dump command.
\<close>

fun dump_segments :: "string list \<Rightarrow> string list list" where
  "dump_segments [] = []"
| "dump_segments (l # ls) =
     (if is_dump_cmd l then (l # takeWhile (\<lambda>x. \<not> is_dump_cmd x) ls) # dump_segments ls
      else dump_segments ls)"

definition productive_dumps :: "string list \<Rightarrow> nat" where
  "productive_dumps log = length (filter (list_ex is_hex_row) (dump_segments log))"

section \<open>Notions used in the proofs\<close>

text \<open>A step that leaves the busy flag as it found it.\<close>

definition keeps_flag :: "step \<Rightarrow> bool" where
  "keeps_flag f = (\<forall>s. isConnecting (snd (f s)) = isConnecting s)"

text \<open>
  What a later session has that an earlier one had not: the lines logged and the calls
  made on the transport in between. \<open>dump_write\<close> is the write of the hex dump command.
\<close>

definition new_lines :: "session \<Rightarrow> session \<Rightarrow> string list" where
  "new_lines s s' = drop (length (LOG_LINES s)) (LOG_LINES s')"

definition new_actions :: "session \<Rightarrow> session \<Rightarrow> action list" where
  "new_actions s s' = drop (length (actions s)) (actions s')"

definition dump_write :: action where
  "dump_write = Write (''hd 0 16'' @ [CR, LF])"

text \<open>
  The number of successful hex dumps the analyzer would report if the transcript ended
  here: the dumps closed so far and, when it has data, the one that is open.
\<close>

definition closing :: "tally \<Rightarrow> nat" where
  "closing t = successfulHexDumps t
     + (if totalHexDumps t > 0 \<and> currentHexDumpHasData t then 1 else 0)"

section \<open>Sessions and environments used as examples\<close>

text \<open>
  A session in which a connect attempt is in flight while the port and the writer of an
  earlier session are still set; a command whose write succeeds with nothing arriving;
  a teardown in which \<^verbatim>\<open>reader.cancel()\<close> rejects.
\<close>

definition busy_session :: session where
  "busy_session = connected0\<lparr>isConnecting := True\<rparr>"

definition quiet_send :: send_env where
  "quiet_send = \<lparr>write_error = None, during_write = [], during_delay = []\<rparr>"

definition cancel_fails :: disconnect_env where
  "cancel_fails = \<lparr>cancel_error = Some ''locked'', during_cancel = [],
     writer_close_error = None, port_close_error = None\<rparr>"

text \<open>
  A session with no port open; a teardown and a handshake in which every call succeeds
  and nothing arrives; a connect attempt in which all goes well, and one in which
  \<^verbatim>\<open>open\<close> rejects.
\<close>

definition disconnected0 :: session where
  "disconnected0 = \<lparr>LOG_LINES = [], port = None, reader = False, writer = False,
     textDecoder = False, textEncoder = False, readableStreamClosed = False,
     writableStreamClosed = False, isConnecting = False, lineBuffer = [], actions = [],
     reading = False\<rparr>"

definition quiet_teardown :: disconnect_env where
  "quiet_teardown = \<lparr>cancel_error = None, during_cancel = [],
     writer_close_error = None, port_close_error = None\<rparr>"

definition quiet_handshake :: handshake_env where
  "quiet_handshake = \<lparr>wake_error = None, wake_chunks = [], help_error = None, help_chunks = [],
     ver_error = None, ver_chunks = [], dtr_error = None, dtr_chunks = [],
     rts_error = None, rts_chunks = []\<rparr>"

definition all_well :: connect_env where
  "all_well = \<lparr>teardown_env = quiet_teardown, request_result = Inr 1, granted_ports = Inr 1,
     selected_readable = False, close_error = None, open_error = None, setup_error = None,
     handshake = quiet_handshake\<rparr>"

definition open_fails :: connect_env where
  "open_fails = all_well\<lparr>open_error := Some ''Failed to open serial port''\<rparr>"

text \<open>
  Three drop-down lists: the placeholder alone; the placeholder and the entry of port 1,
  which is selected; the same entries with none selected.
\<close>

definition placeholder_only :: dropdown where
  "placeholder_only = \<lparr>options = [None], selectedIndex = 0\<rparr>"

definition port1_selected :: dropdown where
  "port1_selected = \<lparr>options = [None, Some 1], selectedIndex = 1\<rparr>"

definition none_selected :: dropdown where
  "none_selected = \<lparr>options = [None, Some 1], selectedIndex = - 1\<rparr>"

text \<open>
  A tick at which nothing has arrived, and a transcript of eleven lines whose only
  prompt is the oldest line.
\<close>

definition tick_at :: "int \<Rightarrow> tick" where
  "tick_at c = \<lparr>arrived = [], clock = c\<rparr>"

definition ten_lines :: "string list" where
  "ten_lines = [''Token: sm'', ''ack'', ''Token: er'', ''reading'', ''done'', ''Token: hd'', ''dumping'',
       ''wait'', ''busy'', ''still busy'']"

definition stale_prompt :: session where
  "stale_prompt = connected0\<lparr>LOG_LINES := [''ready>''] @ ten_lines\<rparr>"

text \<open>
  A channel on which every write succeeds and nothing arrives; the same channel with
  one row of nine bytes arriving after the first dump command; the session after the
  select command of multiplexer A, channel 0, on the quiet channel.
\<close>

definition quiet_channel :: channel_env where
  "quiet_channel = \<lparr>select_send = quiet_send, select_wait = [], read_send = quiet_send,
     read_wait = [], read_settle = [], dump_send = quiet_send, dump_wait = [],
     retry_delay = [], retry_send = quiet_send, retry_wait = [], channel_settle = []\<rparr>"

definition answering_channel :: channel_env where
  "answering_channel =
     quiet_channel\<lparr>dump_wait := [''00: 70 72 6F 6D 6F 74 65 72 5F'' @ [CR, LF]]\<rparr>"

definition selected0 :: session where
  "selected0 = connected0\<lparr>LOG_LINES := [LF # ''--- MUX A, Channel 0 ---'', ''> sm a 0''],
     actions := [Write (''sm a 0'' @ [CR, LF])]\<rparr>"

text \<open>
  Three transcripts: a selection is acknowledged and the dump that follows gives no
  data; a select command is echoed and nothing acknowledges it; a hex row and no
  command at all.
\<close>

definition silent_board :: session where
  "silent_board = connected0\<lparr>LOG_LINES := [''Selected MUX A, Channel 0'', ''> hd 16'', ''fail'']\<rparr>"

definition unacknowledged :: session where
  "unacknowledged = connected0\<lparr>LOG_LINES := [''> sm a 0'']\<rparr>"

definition dump_only :: session where
  "dump_only = connected0\<lparr>LOG_LINES := [''00: 70 72 6F 6D 6F 74 65 72 5F'']\<rparr>"

section \<open>The matcher decides the language\<close>

lemma in_conc: "w \<in> conc A B \<longleftrightarrow> (\<exists>u v. w = u @ v \<and> u \<in> A \<and> v \<in> B)"
  by (simp add: conc_def)

lemma nullable_lang: "nullable r \<longleftrightarrow> [] \<in> lang r"
  by (induction r) (auto simp: in_conc intro: repeated.none)

lemma lang_seqs: "lang (seqs r s) = lang (Seq r s)"
  by (cases "(r, s)" rule: seqs.cases) (auto simp: in_conc)

lemma lang_alts: "lang (alts r s) = lang (Alt r s)"
  by (cases "(r, s)" rule: alts.cases) auto

lemma repeated_Cons:
  "c # w \<in> repeated A \<longleftrightarrow> (\<exists>u v. w = u @ v \<and> c # u \<in> A \<and> v \<in> repeated A)"
proof
  assume "c # w \<in> repeated A"
  then show "\<exists>u v. w = u @ v \<and> c # u \<in> A \<and> v \<in> repeated A"
  proof (induction "c # w" rule: repeated.induct)
    case (more u v)
    show ?case
    proof (cases u)
      case Nil
      with more show ?thesis by simp
    next
      case (Cons d u')
      with more(1,2,4) show ?thesis by auto
    qed
  qed
next
  assume "\<exists>u v. w = u @ v \<and> c # u \<in> A \<and> v \<in> repeated A"
  then obtain u v where "w = u @ v" "c # u \<in> A" "v \<in> repeated A" by blast
  then show "c # w \<in> repeated A"
    using repeated.more [of "c # u" A v] by simp
qed

lemma Cons_in_conc:
  "c # w \<in> conc A B \<longleftrightarrow>
     ([] \<in> A \<and> c # w \<in> B) \<or> (\<exists>u v. w = u @ v \<and> c # u \<in> A \<and> v \<in> B)"
proof
  assume "c # w \<in> conc A B"
  then obtain u v where e: "c # w = u @ v" and u: "u \<in> A" and v: "v \<in> B"
    by (auto simp: in_conc)
  show "([] \<in> A \<and> c # w \<in> B) \<or> (\<exists>u v. w = u @ v \<and> c # u \<in> A \<and> v \<in> B)"
  proof (cases u)
    case Nil
    with e u v show ?thesis by simp
  next
    case (Cons d u')
    with e u v show ?thesis by auto
  qed
next
  assume "([] \<in> A \<and> c # w \<in> B) \<or> (\<exists>u v. w = u @ v \<and> c # u \<in> A \<and> v \<in> B)"
  then show "c # w \<in> conc A B"
  proof
    assume "[] \<in> A \<and> c # w \<in> B"
    then have "c # w = [] @ (c # w)" "[] \<in> A" "c # w \<in> B" by simp_all
    then show ?thesis unfolding in_conc by blast
  next
    assume "\<exists>u v. w = u @ v \<and> c # u \<in> A \<and> v \<in> B"
    then obtain u v where "c # w = (c # u) @ v" "c # u \<in> A" "v \<in> B" by auto
    then show ?thesis unfolding in_conc by blast
  qed
qed

lemma lang_deriv: "lang (deriv c r) = {w. c # w \<in> lang r}"
proof (induction r)
  case (Seq r s)
  have "{w. c # w \<in> lang (Seq r s)} =
      conc {w. c # w \<in> lang r} (lang s) \<union> (if [] \<in> lang r then {w. c # w \<in> lang s} else {})"
    by (auto simp: Cons_in_conc) (auto simp: in_conc)
  with Seq show ?case
    by (simp add: lang_alts lang_seqs nullable_lang Un_commute)
next
  case (Star r)
  have "{w. c # w \<in> repeated (lang r)} = conc {w. c # w \<in> lang r} (repeated (lang r))"
    unfolding set_eq_iff mem_Collect_eq repeated_Cons in_conc by blast
  with Star show ?case by (simp add: lang_seqs)
qed (auto simp: lang_alts)

text \<open>
  An anchored pattern matches a line when a prefix of the line is in its language; a
  pattern without anchor matches when some part of the line is.
\<close>

lemma match_prefix_lang: "match_prefix r s \<longleftrightarrow> (\<exists>u v. s = u @ v \<and> u \<in> lang r)"
proof (induction s arbitrary: r)
  case Nil
  show ?case by (simp add: nullable_lang)
next
  case (Cons c cs)
  have "(\<exists>u v. c # cs = u @ v \<and> u \<in> lang r)
      \<longleftrightarrow> [] \<in> lang r \<or> (\<exists>u v. cs = u @ v \<and> c # u \<in> lang r)"
    by (auto simp: Cons_eq_append_conv)
  with Cons [of "deriv c r"] show ?case
    by (simp add: nullable_lang lang_deriv)
qed

lemma search_lang: "search r s \<longleftrightarrow> (\<exists>p u v. s = p @ u @ v \<and> u \<in> lang r)"
proof (induction s)
  case Nil
  show ?case by (simp add: nullable_lang)
next
  case (Cons c cs)
  have "(\<exists>p u v. c # cs = p @ u @ v \<and> u \<in> lang r)
      \<longleftrightarrow> (\<exists>u v. c # cs = u @ v \<and> u \<in> lang r) \<or> (\<exists>p u v. cs = p @ u @ v \<and> u \<in> lang r)"
  proof
    assume "\<exists>p u v. c # cs = p @ u @ v \<and> u \<in> lang r"
    then obtain p u v where e: "c # cs = p @ u @ v" and u: "u \<in> lang r" by blast
    show "(\<exists>u v. c # cs = u @ v \<and> u \<in> lang r) \<or> (\<exists>p u v. cs = p @ u @ v \<and> u \<in> lang r)"
    proof (cases p)
      case Nil
      with e u show ?thesis by auto
    next
      case (Cons d p')
      with e u show ?thesis by auto
    qed
  next
    assume "(\<exists>u v. c # cs = u @ v \<and> u \<in> lang r) \<or> (\<exists>p u v. cs = p @ u @ v \<and> u \<in> lang r)"
    then show "\<exists>p u v. c # cs = p @ u @ v \<and> u \<in> lang r"
    proof
      assume "\<exists>u v. c # cs = u @ v \<and> u \<in> lang r"
      then obtain u v where "c # cs = [] @ u @ v" "u \<in> lang r" by auto
      then show ?thesis by blast
    next
      assume "\<exists>p u v. cs = p @ u @ v \<and> u \<in> lang r"
      then obtain p u v where "c # cs = (c # p) @ u @ v" "u \<in> lang r" by auto
      then show ?thesis by blast
    qed
  qed
  with Cons show ?case
    using match_prefix_lang [of r "c # cs"] by simp
qed

section \<open>Evaluating the regular expressions\<close>

lemma rx_times_numeral [simp]: "rx_times (numeral k) r = Seq r (rx_times (pred_numeral k) r)"
  by (simp add: numeral_eq_Suc)

lemmas rx_eval = hex_row_rx_def is_hex_row_def rx_ws_def rx_digit_def rx_hex_def rx_plus_def
  rx_opt_def rx_at_least_def mux_cmd_rx_def mux_ok_rx_def mux_selected_rx_def dump_cmd_rx_def

section \<open>Splitting\<close>

lemma split_lines_nonempty: "split_lines s \<noteq> []"
  by (induction s rule: split_lines.induct) (auto split: list.splits elim: cons_first.elims)

lemma cons_first_nonempty: "cons_first c ps \<noteq> []"
  by (cases ps) simp_all

lemma last_cons_first: "last (cons_first c ps) = (case ps of [] \<Rightarrow> [c] | [p] \<Rightarrow> c # p | _ \<Rightarrow> last ps)"
  by (cases ps) (auto split: list.splits)

lemma split_lines_other:
  "c \<noteq> LF \<Longrightarrow> \<not> (c = CR \<and> d = LF) \<Longrightarrow>
   split_lines (c # d # cs) = cons_first c (split_lines (d # cs))"
  by (cases "c = CR") simp_all

lemma split_lines_single: "LF \<notin> set s \<Longrightarrow> split_lines s = [s]"
  by (induction s rule: split_lines.induct) auto

lemma length_cons_first: "ps \<noteq> [] \<Longrightarrow> length (cons_first c ps) = length ps"
  by (cases ps) simp_all

lemma split_lines_has_LF: "LF \<in> set s \<Longrightarrow> 2 \<le> length (split_lines s)"
proof (induction s rule: split_lines.induct)
  case 1
  then show ?case by simp
next
  case (2 c)
  then show ?case by simp
next
  case (3 c d cs)
  have ne: "\<And>t. 1 \<le> length (split_lines t)"
    using split_lines_nonempty by (simp add: Suc_le_eq)
  show ?case
  proof (cases "c = LF \<or> (c = CR \<and> d = LF)")
    case True
    then show ?thesis using ne [of "d # cs"] ne [of cs] by auto
  next
    case False
    with 3 have "2 \<le> length (split_lines (d # cs))" by auto
    moreover from False have "split_lines (c # d # cs) = cons_first c (split_lines (d # cs))"
      by (intro split_lines_other) auto
    ultimately show ?thesis by (simp add: length_cons_first split_lines_nonempty)
  qed
qed

lemma split_lines_one_piece: "split_lines s = [p] \<Longrightarrow> p = s"
proof -
  assume a: "split_lines s = [p]"
  have "LF \<notin> set s"
  proof
    assume "LF \<in> set s"
    then have "2 \<le> length (split_lines s)" by (rule split_lines_has_LF)
    with a show False by simp
  qed
  then have "split_lines s = [s]" by (rule split_lines_single)
  with a show ?thesis by simp
qed

lemma split_lines_append:
  "split_lines (xs @ ys) = butlast (split_lines xs) @ split_lines (last (split_lines xs) @ ys)"
proof (induction xs rule: split_lines.induct)
  case 1
  show ?case by simp
next
  case (2 c)
  show ?case by (cases ys) auto
next
  case (3 c d cs)
  let ?S = "split_lines (d # cs)"
  show ?case
  proof (cases "c = LF")
    case True
    with 3 show ?thesis by (simp add: split_lines_nonempty)
  next
    case nlf: False
    show ?thesis
    proof (cases "c = CR \<and> d = LF")
      case True
      with nlf 3 show ?thesis by (simp add: split_lines_nonempty)
    next
      case False
      with nlf 3 have ih: "split_lines ((d # cs) @ ys) = butlast ?S @ split_lines (last ?S @ ys)"
        by simp
      from nlf False have lhs: "split_lines ((c # d # cs) @ ys) = cons_first c (split_lines ((d # cs) @ ys))"
        using split_lines_other [of c d "cs @ ys"] by simp
      from nlf False have S': "split_lines (c # d # cs) = cons_first c ?S"
        by (rule split_lines_other)
      show ?thesis
      proof (cases ?S)
        case Nil
        then show ?thesis using split_lines_nonempty by blast
      next
        case (Cons p ps)
        show ?thesis
        proof (cases ps)
          case Nil
          with Cons have "?S = [p]" by simp
          then have p: "p = d # cs" by (rule split_lines_one_piece)
          from \<open>?S = [p]\<close> p have "split_lines (c # d # cs) = [c # d # cs]"
            using S' by simp
          then show ?thesis by simp
        next
          case (Cons q qs)
          with \<open>?S = p # ps\<close> have S: "?S = p # q # qs" by simp
          show ?thesis
            unfolding lhs ih S' S by simp
        qed
      qed
    qed
  qed
qed

lemma set_cons_first:
  "p \<in> set (cons_first c ps) \<Longrightarrow> p \<in> set ps \<or> p = [c] \<or> (\<exists>q \<in> set ps. p = c # q)"
  by (cases ps) auto

lemma pieces_no_LF: "p \<in> set (split_lines s) \<Longrightarrow> LF \<notin> set p"
proof (induction s arbitrary: p rule: split_lines.induct)
  case 1
  then show ?case by simp
next
  case (2 c)
  then show ?case by (auto split: if_splits)
next
  case (3 c d cs)
  show ?case
  proof (cases "c = LF \<or> (c = CR \<and> d = LF)")
    case True
    with 3 show ?thesis by (auto split: if_splits)
  next
    case False
    then have "split_lines (c # d # cs) = cons_first c (split_lines (d # cs))"
      by (intro split_lines_other) auto
    with 3(4) have "p \<in> set (cons_first c (split_lines (d # cs)))" by simp
    then have "p \<in> set (split_lines (d # cs)) \<or> p = [c] \<or> (\<exists>q \<in> set (split_lines (d # cs)). p = c # q)"
      by (rule set_cons_first)
    with False 3(3) show ?thesis by auto
  qed
qed

lemma concat_cons_first: "concat (cons_first c ps) = c # concat ps"
  by (cases ps) simp_all

lemma concat_split_lines: "concat (split_lines s) = strip_terminators s"
  by (induction s rule: split_lines.induct) (auto simp: concat_cons_first)

lemma log_complete_eq: "log_complete ls s = s\<lparr>LOG_LINES := LOG_LINES s @ emitted ls\<rparr>"
  by (induction ls s rule: log_complete.induct) (auto simp: emitted_def logLine_def)

lemma on_value_eq:
  assumes "LF \<notin> set (lineBuffer s)"
  shows "on_value v s =
    s\<lparr>LOG_LINES := LOG_LINES s @ emitted (split_lines (lineBuffer s @ v)),
      lineBuffer := last (split_lines (lineBuffer s @ v))\<rparr>"
proof (cases "v = []")
  case True
  with assms show ?thesis
    by (simp add: on_value_def split_lines_single emitted_def)
next
  case False
  then show ?thesis
    by (simp add: on_value_def Let_def log_complete_eq)
qed

lemma last_piece_no_LF: "LF \<notin> set (last (split_lines x))"
  using pieces_no_LF [of "last (split_lines x)" x] split_lines_nonempty [of x] by simp

lemma emitted_append: "ys \<noteq> [] \<Longrightarrow> emitted (xs @ ys) = filter (\<lambda>l. l \<noteq> []) (map trim xs) @ emitted ys"
  by (simp add: emitted_def butlast_append)

lemma emitted_split_append:
  "emitted (split_lines (xs @ ys)) =
   emitted (split_lines xs) @ emitted (split_lines (last (split_lines xs) @ ys))"
proof -
  have "emitted (split_lines (xs @ ys)) =
      emitted (butlast (split_lines xs) @ split_lines (last (split_lines xs) @ ys))"
    by (simp add: split_lines_append [of xs ys])
  also have "\<dots> = filter (\<lambda>l. l \<noteq> []) (map trim (butlast (split_lines xs)))
      @ emitted (split_lines (last (split_lines xs) @ ys))"
    by (rule emitted_append) (rule split_lines_nonempty)
  finally show ?thesis by (simp add: emitted_def)
qed

lemma last_split_append:
  "last (split_lines (xs @ ys)) = last (split_lines (last (split_lines xs) @ ys))"
  by (simp add: split_lines_append [of xs ys] split_lines_nonempty)

lemma on_value_live:
  "port (on_value v s) = port s" "reader (on_value v s) = reader s"
  by (simp_all add: on_value_def Let_def log_complete_eq)

lemma pending_read_Value:
  "port s \<noteq> None \<Longrightarrow> reader s \<Longrightarrow>
     pending_read (Value v # rs) s = pending_read rs (on_value v s)"
  by (auto simp: Let_def on_value_live)

lemma pending_read_values:
  assumes "port s \<noteq> None" and "reader s" and "LF \<notin> set (lineBuffer s)"
  shows "pending_read (map Value cs) s =
    s\<lparr>LOG_LINES := LOG_LINES s @ emitted (split_lines (lineBuffer s @ concat cs)),
      lineBuffer := last (split_lines (lineBuffer s @ concat cs))\<rparr>"
  using assms
proof (induction cs arbitrary: s)
  case Nil
  then show ?case by (simp add: split_lines_single emitted_def)
next
  case (Cons c cs)
  let ?s' = "on_value c s"
  have s': "?s' = s\<lparr>LOG_LINES := LOG_LINES s @ emitted (split_lines (lineBuffer s @ c)),
      lineBuffer := last (split_lines (lineBuffer s @ c))\<rparr>"
    using Cons.prems(3) by (rule on_value_eq)
  have p: "port ?s' \<noteq> None" "reader ?s'" "LF \<notin> set (lineBuffer ?s')"
    using Cons.prems by (simp_all add: s' last_piece_no_LF)
  have "pending_read (map Value (c # cs)) s = pending_read (map Value cs) ?s'"
    using Cons.prems(1,2) by (simp add: pending_read_Value del: pending_read.simps)
  also have "\<dots> = ?s'\<lparr>LOG_LINES := LOG_LINES ?s' @ emitted (split_lines (lineBuffer ?s' @ concat cs)),
      lineBuffer := last (split_lines (lineBuffer ?s' @ concat cs))\<rparr>"
    using p by (rule Cons.IH)
  also have "\<dots> = s\<lparr>LOG_LINES := LOG_LINES s @ emitted (split_lines (lineBuffer s @ concat (c # cs))),
      lineBuffer := last (split_lines (lineBuffer s @ concat (c # cs)))\<rparr>"
    using emitted_split_append [of "lineBuffer s @ c" "concat cs"]
      last_split_append [of "lineBuffer s @ c" "concat cs"]
    by (simp add: s')
  finally show ?case .
qed

lemma readLoop_started:
  "port s \<noteq> None \<Longrightarrow> reader s \<Longrightarrow>
     readLoop rs s = pending_read rs (s\<lparr>reading := True\<rparr>)"
  by (auto simp: readLoop_def)

lemma readLoop_values:
  assumes "port s \<noteq> None" and "reader s" and "LF \<notin> set (lineBuffer s)"
  shows "readLoop (map Value cs) s =
    s\<lparr>reading := True,
      LOG_LINES := LOG_LINES s @ emitted (split_lines (lineBuffer s @ concat cs)),
      lineBuffer := last (split_lines (lineBuffer s @ concat cs))\<rparr>"
proof -
  have "pending_read (map Value cs) (s\<lparr>reading := True\<rparr>) =
    (s\<lparr>reading := True\<rparr>)\<lparr>LOG_LINES := LOG_LINES (s\<lparr>reading := True\<rparr>)
        @ emitted (split_lines (lineBuffer (s\<lparr>reading := True\<rparr>) @ concat cs)),
      lineBuffer := last (split_lines (lineBuffer (s\<lparr>reading := True\<rparr>) @ concat cs))\<rparr>"
    using assms by (intro pending_read_values) simp_all
  with assms(1,2) show ?thesis by (simp add: readLoop_started)
qed

lemma pending_read_snoc:
  "port s \<noteq> None \<Longrightarrow> reader s \<Longrightarrow>
     pending_read (map Value (cs @ [c])) s = on_value c (pending_read (map Value cs) s)"
proof (induction cs arbitrary: s)
  case Nil
  then show ?case by (auto simp: Let_def on_value_live)
next
  case (Cons a cs)
  have "port (on_value a s) \<noteq> None" "reader (on_value a s)"
    using Cons.prems by (simp_all add: on_value_live)
  then have "pending_read (map Value (cs @ [c])) (on_value a s)
      = on_value c (pending_read (map Value cs) (on_value a s))"
    by (rule Cons.IH)
  then show ?case
    using Cons.prems by (simp add: pending_read_Value del: pending_read.simps)
qed

lemma set_trim: "set (trim s) \<subseteq> set s"
proof -
  have "set (trim s) = set (dropWhile is_space (rev (dropWhile is_space s)))"
    by (simp add: trim_def)
  also have "\<dots> \<subseteq> set (rev (dropWhile is_space s))"
    by (rule set_dropWhileD [THEN subsetI]) 
  also have "\<dots> \<subseteq> set s"
    using set_dropWhileD [of _ is_space s] by auto
  finally show ?thesis .
qed

lemma emitted_no_LF: "LF \<notin> set (concat (emitted (split_lines x)))"
proof
  assume "LF \<in> set (concat (emitted (split_lines x)))"
  then obtain p where p: "p \<in> set (butlast (split_lines x))" and "LF \<in> set (trim p)"
    by (auto simp: emitted_def)
  then have "LF \<in> set p" using set_trim by blast
  moreover from p have "p \<in> set (split_lines x)" by (rule in_set_butlastD)
  ultimately show False using pieces_no_LF by blast
qed

lemmas char_eval = LF_def CR_def is_space_def trim_def

section \<open>Stream pipeline: what the read loop emits\<close>

text \<open>
  Claim C1 reads the emitted lines as the input cut at its terminators. The loop trims
  each piece before logging it, so a chunk with a leading space already breaks the
  equation: \<^verbatim>\<open>" a\n"\<close> is logged as \<^verbatim>\<open>"a"\<close>.
\<close>

theorem readLoop_trims_lines_counterexample:
  "concat (LOG_LINES (readLoop [Value '' a\<newline>''] connected0))
     @ lineBuffer (readLoop [Value '' a\<newline>''] connected0)
   \<noteq> strip_terminators (concat ['' a\<newline>''])"
  by (simp add: readLoop_def connected0_def on_value_def logLine_def char_eval)

text \<open>
  C1, as the code has it. Started on an empty buffer and fed any sequence of chunks, the
  read loop holds as residual the last piece of the split of the whole input, has logged
  the other pieces trimmed, leaving out those that trim to nothing; the pieces before
  trimming, followed by the residual, are the input without its terminators; and no
  logged line contains a line feed.
\<close>

theorem readLoop_reassembles:
  assumes "port s \<noteq> None" and "reader s" and "lineBuffer s = []"
  shows "lineBuffer (readLoop (map Value cs) s) = last (split_lines (concat cs))
    \<and> LOG_LINES (readLoop (map Value cs) s) = LOG_LINES s @ emitted (split_lines (concat cs))
    \<and> concat (butlast (split_lines (concat cs))) @ last (split_lines (concat cs))
        = strip_terminators (concat cs)
    \<and> LF \<notin> set (concat (emitted (split_lines (concat cs))))"
proof -
  have "LF \<notin> set (lineBuffer s)" using assms(3) by simp
  with assms(1,2) have "readLoop (map Value cs) s =
    s\<lparr>reading := True,
      LOG_LINES := LOG_LINES s @ emitted (split_lines (lineBuffer s @ concat cs)),
      lineBuffer := last (split_lines (lineBuffer s @ concat cs))\<rparr>"
    by (rule readLoop_values)
  then have 1: "lineBuffer (readLoop (map Value cs) s) = last (split_lines (concat cs))"
    and 2: "LOG_LINES (readLoop (map Value cs) s) = LOG_LINES s @ emitted (split_lines (concat cs))"
    using assms(3) by simp_all
  have "concat (butlast (split_lines (concat cs)) @ [last (split_lines (concat cs))])
      = strip_terminators (concat cs)"
    using split_lines_nonempty [of "concat cs"] concat_split_lines [of "concat cs"]
    by (metis append_butlast_last_id)
  then have 3: "concat (butlast (split_lines (concat cs))) @ last (split_lines (concat cs))
        = strip_terminators (concat cs)"
    by simp
  from 1 2 3 emitted_no_LF show ?thesis by blast
qed

theorem readLoop_reassembles_witness:
  "port connected0 \<noteq> None \<and> reader connected0 \<and> lineBuffer connected0 = []
   \<and> lineBuffer (readLoop (map Value ['' a'', ''b\<newline> c '', ''d'']) connected0) = '' c d''
   \<and> LOG_LINES (readLoop (map Value ['' a'', ''b\<newline> c '', ''d'']) connected0) = [''ab'']
   \<and> strip_terminators (concat ['' a'', ''b\<newline> c '', ''d'']) = '' ab c d''"
proof -
  have h: "port connected0 \<noteq> None" "reader connected0" "lineBuffer connected0 = []"
    by (simp_all add: connected0_def)
  show ?thesis
    using h readLoop_reassembles [OF h, of "['' a'', ''b\<newline> c '', ''d'']"]
    by (simp add: emitted_def char_eval connected0_def)
qed

lemma on_value_no_terminator:
  assumes "LF \<notin> set (lineBuffer s)" and "LF \<notin> set c"
  shows "on_value c s = s\<lparr>lineBuffer := lineBuffer s @ c\<rparr>"
proof -
  have "split_lines (lineBuffer s @ c) = [lineBuffer s @ c]"
    using assms by (intro split_lines_single) simp
  then show ?thesis
    using on_value_eq [OF assms(1), of c] by (simp add: emitted_def)
qed

text \<open>
  C2. In every state the read loop reaches from an empty buffer, a further chunk without
  a line feed logs nothing and leaves the residual buffer as the old one with the chunk
  appended.
\<close>

theorem no_terminator_only_grows:
  assumes "port s0 \<noteq> None" and "reader s0" and "lineBuffer s0 = []" and "LF \<notin> set c"
  shows "readLoop (map Value (cs @ [c])) s0 =
    (readLoop (map Value cs) s0)\<lparr>lineBuffer := lineBuffer (readLoop (map Value cs) s0) @ c\<rparr>"
proof -
  let ?s = "readLoop (map Value cs) s0"
  have b0: "LF \<notin> set (lineBuffer s0)" using assms(3) by simp
  have s: "?s = s0\<lparr>reading := True,
      LOG_LINES := LOG_LINES s0 @ emitted (split_lines (lineBuffer s0 @ concat cs)),
      lineBuffer := last (split_lines (lineBuffer s0 @ concat cs))\<rparr>"
    using assms(1,2) b0 by (rule readLoop_values)
  have inv: "LF \<notin> set (lineBuffer ?s)"
    by (simp add: s last_piece_no_LF)
  have "readLoop (map Value (cs @ [c])) s0 = pending_read (map Value (cs @ [c])) (s0\<lparr>reading := True\<rparr>)"
    using assms(1,2) by (rule readLoop_started)
  also have "\<dots> = on_value c (pending_read (map Value cs) (s0\<lparr>reading := True\<rparr>))"
    using assms(1,2) by (intro pending_read_snoc) simp_all
  also have "pending_read (map Value cs) (s0\<lparr>reading := True\<rparr>) = ?s"
    using assms(1,2) by (simp add: readLoop_started)
  finally have step: "readLoop (map Value (cs @ [c])) s0 = on_value c ?s" .
  show ?thesis
    unfolding step using inv assms(4) by (rule on_value_no_terminator)
qed

theorem no_terminator_only_grows_witness:
  "port connected0 \<noteq> None \<and> reader connected0 \<and> lineBuffer connected0 = [] \<and> LF \<notin> set ''cd''
   \<and> readLoop (map Value ([''x\<newline>ab''] @ [''cd''])) connected0
     = (readLoop (map Value [''x\<newline>ab'']) connected0)\<lparr>lineBuffer := ''abcd''\<rparr>
   \<and> LOG_LINES (readLoop (map Value ([''x\<newline>ab''] @ [''cd''])) connected0) = [''x'']"
proof -
  have h: "port connected0 \<noteq> None" "reader connected0" "lineBuffer connected0 = []" "LF \<notin> set ''cd''"
    by (simp_all add: connected0_def LF_def)
  show ?thesis
    using h no_terminator_only_grows [OF h, of "[''x\<newline>ab'']"]
    by (simp add: readLoop_def connected0_def on_value_def logLine_def char_eval)
qed

text \<open>
  Claim C8 expects \<^verbatim>\<open>"gh"\<close> to stay in the buffer, but the last chunk ends in a
  terminator, so \<^verbatim>\<open>"gh"\<close> is logged too.
\<close>

theorem example_stream_counterexample:
  "\<not> (LOG_LINES (readLoop (map Value [''ab'', ''cd\<newline>'', ''ef\<newline>gh\<newline>'']) connected0)
        = [''abcd'', ''ef'']
      \<and> lineBuffer (readLoop (map Value [''ab'', ''cd\<newline>'', ''ef\<newline>gh\<newline>'']) connected0)
        = ''gh'')"
  by (simp add: readLoop_def connected0_def on_value_def logLine_def char_eval)

text \<open>
  C8, as the code has it. On the chunks \<^verbatim>\<open>"ab"\<close>, \<^verbatim>\<open>"cd\n"\<close>, \<^verbatim>\<open>"ef\ngh\n"\<close>
  the loop logs \<^verbatim>\<open>abcd\<close>, \<^verbatim>\<open>ef\<close>, \<^verbatim>\<open>gh\<close> and the residual is empty; when
  the last chunk is \<^verbatim>\<open>"ef\ngh"\<close> it logs \<^verbatim>\<open>abcd\<close>, \<^verbatim>\<open>ef\<close> and holds
  \<^verbatim>\<open>gh\<close>.
\<close>

theorem example_stream_emits:
  "LOG_LINES (readLoop (map Value [''ab'', ''cd\<newline>'', ''ef\<newline>gh\<newline>'']) connected0)
        = [''abcd'', ''ef'', ''gh'']
   \<and> lineBuffer (readLoop (map Value [''ab'', ''cd\<newline>'', ''ef\<newline>gh\<newline>'']) connected0)
        = ''''
   \<and> LOG_LINES (readLoop (map Value [''ab'', ''cd\<newline>'', ''ef\<newline>gh'']) connected0)
        = [''abcd'', ''ef'']
   \<and> lineBuffer (readLoop (map Value [''ab'', ''cd\<newline>'', ''ef\<newline>gh'']) connected0)
        = ''gh''"
  by (simp add: readLoop_def connected0_def on_value_def logLine_def char_eval)

section \<open>What the operations leave unchanged\<close>

lemma logLine_frame [simp]:
  "port (logLine m s) = port s" "reader (logLine m s) = reader s" "writer (logLine m s) = writer s"
  "isConnecting (logLine m s) = isConnecting s" "actions (logLine m s) = actions s"
  "lineBuffer (logLine m s) = lineBuffer s" "LOG_LINES (logLine m s) = LOG_LINES s @ [m]"
  "reading (logLine m s) = reading s"
  by (simp_all add: logLine_def)

lemma act_frame [simp]:
  "port (act a s) = port s" "reader (act a s) = reader s" "writer (act a s) = writer s"
  "isConnecting (act a s) = isConnecting s" "actions (act a s) = actions s @ [a]"
  "lineBuffer (act a s) = lineBuffer s" "LOG_LINES (act a s) = LOG_LINES s"
  "reading (act a s) = reading s"
  by (simp_all add: act_def)

lemma on_value_frame [simp]:
  "port (on_value v s) = port s" "reader (on_value v s) = reader s"
  "writer (on_value v s) = writer s" "isConnecting (on_value v s) = isConnecting s"
  "actions (on_value v s) = actions s" "reading (on_value v s) = reading s"
  by (simp_all add: on_value_def Let_def log_complete_eq)

lemma pending_read_frame:
  "port (pending_read rs s) = port s \<and> reader (pending_read rs s) = reader s
   \<and> writer (pending_read rs s) = writer s \<and> isConnecting (pending_read rs s) = isConnecting s
   \<and> actions (pending_read rs s) = actions s"
proof (induction rs arbitrary: s)
  case Nil
  show ?case by simp
next
  case (Cons r rs)
  show ?case
  proof (cases r)
    case (Value v)
    with Cons [of "on_value v s"] show ?thesis by (simp add: Let_def)
  next
    case Done
    then show ?thesis by simp
  next
    case (Throws m)
    then show ?thesis by simp
  qed
qed

lemma resumed_frame [simp]:
  "port (resumed rs s) = port s" "reader (resumed rs s) = reader s"
  "writer (resumed rs s) = writer s" "isConnecting (resumed rs s) = isConnecting s"
  "actions (resumed rs s) = actions s"
  using pending_read_frame [of rs s] by (simp_all add: resumed_def)

lemma received_frame [simp]:
  "port (received cs s) = port s" "reader (received cs s) = reader s"
  "writer (received cs s) = writer s" "isConnecting (received cs s) = isConnecting s"
  "actions (received cs s) = actions s"
  by (simp_all add: received_def)

lemma readLoop_frame [simp]:
  "port (readLoop rs s) = port s" "reader (readLoop rs s) = reader s"
  "writer (readLoop rs s) = writer s" "isConnecting (readLoop rs s) = isConnecting s"
  "actions (readLoop rs s) = actions s"
  using pending_read_frame [of rs "s\<lparr>reading := True\<rparr>"] by (simp_all add: readLoop_def)

lemmas received_eval = received_def resumed_def

section \<open>Sending while a connect attempt is in flight\<close>

text \<open>
  C10. Whenever the busy flag is set, \<^verbatim>\<open>sendCommand\<close> returns false, logs the
  ``not connected'' line and makes no call on the transport, whatever the port and the
  writer are.
\<close>

theorem sendCommand_refused_while_connecting:
  "isConnecting s \<Longrightarrow>
     sendCommand command e s = (False, logLine ''Error: Not connected to any port.'' s)
     \<and> actions (snd (sendCommand command e s)) = actions s"
  by (simp add: sendCommand_def)

theorem sendCommand_refused_while_connecting_witness:
  "isConnecting busy_session \<and> port busy_session = Some 0 \<and> writer busy_session
   \<and> fst (sendCommand ''hd 0 16'' quiet_send busy_session) = False
   \<and> actions (snd (sendCommand ''hd 0 16'' quiet_send busy_session)) = []"
proof -
  have h: "isConnecting busy_session" by (simp add: busy_session_def)
  show ?thesis
    using h sendCommand_refused_while_connecting [OF h, of "''hd 0 16''" quiet_send]
    by (simp add: busy_session_def connected0_def)
qed

text \<open>With the flag clear, the same command on the same session is written.\<close>

lemma sendCommand_connected_writes:
  "fst (sendCommand ''hd 0 16'' quiet_send connected0) = True
   \<and> actions (snd (sendCommand ''hd 0 16'' quiet_send connected0)) = [Write (''hd 0 16'' @ [CR, LF])]"
  by (simp add: sendCommand_def connected0_def quiet_send_def received_eval)

section \<open>Teardown\<close>




text \<open>
  After the failed cancellation the port variable is null and the read loop is still
  suspended in its read: the chunk of that read is logged, and only then does the loop
  see the null port and end.
\<close>

lemma read_in_flight_delivers:
  "port (disconnectPort cancel_fails connected0) = None
   \<and> reading (disconnectPort cancel_fails connected0)
   \<and> LOG_LINES (received [''late'' @ [LF], ''later'' @ [LF]] (disconnectPort cancel_fails connected0))
     = [''Error disconnecting: locked'', ''late'']
   \<and> \<not> reading (received [''late'' @ [LF], ''later'' @ [LF]] (disconnectPort cancel_fails connected0))"
  by (simp add: disconnectPort_def teardown_def seqE_def cancel_reader_def cancel_fails_def
      connected0_def received_eval act_def logLine_def on_value_def char_eval)

section \<open>Waiting for the prompt\<close>

lemma endsWith_char: "endsWith s [c] \<longleftrightarrow> s \<noteq> [] \<and> last s = c"
proof (cases "rev s")
  case Nil
  then show ?thesis by (simp add: endsWith_def)
next
  case (Cons d ds)
  then have "s = rev ds @ [d]" by (metis rev_rev_ident rev.simps(2))
  with Cons show ?thesis by (auto simp: endsWith_def)
qed

lemma startsWith_char: "startsWith s [c] \<longleftrightarrow> s \<noteq> [] \<and> hd s = c"
  by (cases s) auto

lemma includes_char: "str_includes s [c] \<longleftrightarrow> c \<in> set s"
  by (induction s) (auto simp: startsWith_char)

lemma isPromptLine_iff:
  "isPromptLine line \<longleftrightarrow> (trim line \<noteq> [] \<and> last (trim line) = CHR ''>'') \<or> CHR ''$'' \<in> set line"
  by (simp add: isPromptLine_def endsWith_char includes_char)

lemma recentLines_window:
  assumes "length window = min 10 (length (older @ window))"
  shows "recentLines (older @ window) = window"
proof (cases "length (older @ window) \<le> 10")
  case True
  with assms have "older = []" by simp
  with True show ?thesis by (simp add: recentLines_def)
next
  case False
  with assms have "length window = 10" by simp
  then show ?thesis by (simp add: recentLines_def)
qed

text \<open>
  C9. At every tick of \<^verbatim>\<open>waitForPrompt\<close>, with \<open>window\<close> the last ten lines of the
  transcript (all of them when there are fewer) and \<open>older\<close> the lines before them:
  the wait completes at this tick exactly when some line of \<open>window\<close> ends in
  \<^verbatim>\<open>>\<close> after trimming or contains \<^verbatim>\<open>$\<close>, or more than the timeout has elapsed
  since the start; otherwise it goes on to the next tick. The lines of \<open>older\<close> have
  no part in the decision.
\<close>

theorem prompt_wait_window:
  assumes "LOG_LINES (received (arrived t) s) = older @ window"
    and "length window = min 10 (length (older @ window))"
  shows "waitForPrompt timeoutMs startTime (t # ts) s =
     (if (\<exists>line \<in> set window.
            (trim line \<noteq> [] \<and> last (trim line) = CHR ''>'') \<or> CHR ''$'' \<in> set line)
         \<or> clock t - startTime > timeoutMs
      then Some (received (arrived t) s)
      else waitForPrompt timeoutMs startTime ts (received (arrived t) s))"
proof -
  have "hasPrompt (older @ window) \<longleftrightarrow>
      (\<exists>line \<in> set window. (trim line \<noteq> [] \<and> last (trim line) = CHR ''>'') \<or> CHR ''$'' \<in> set line)"
    using recentLines_window [OF assms(2)]
    by (simp add: hasPrompt_def list_ex_iff isPromptLine_iff)
  then show ?thesis
    using assms(1) by (simp add: tick_resolves_def Let_def)
qed

text \<open>
  The wait ends: a tick later than the timeout resolves it at the latest. When it has
  ended, the session is the one the read loop has made of the chunks that arrived
  meanwhile, which is how the scan below sees a wait.
\<close>

lemma waitForPrompt_times_out:
  "\<exists>t \<in> set ticks. clock t - startTime > timeoutMs \<Longrightarrow>
     waitForPrompt timeoutMs startTime ticks s \<noteq> None"
  by (induction ticks arbitrary: s) (auto simp: tick_resolves_def Let_def)

lemma received_idle: "\<not> reading s \<Longrightarrow> received cs s = s"
  by (simp add: received_eval)

lemma received_Nil: "received [] s = s"
  by (simp add: received_eval)

lemma received_Cons:
  "reading s \<Longrightarrow> received (x # cs) s =
     (if port s = None \<or> \<not> reader s then (on_value x s)\<lparr>reading := False\<rparr>
      else received cs (on_value x s))"
  by (simp add: received_eval Let_def)

lemma received_append: "received (a @ b) s = received b (received a s)"
proof (induction a arbitrary: s)
  case Nil
  show ?case by (simp add: received_Nil)
next
  case (Cons x a)
  show ?case
  proof (cases "reading s")
    case False
    then show ?thesis by (simp add: received_idle)
  next
    case True
    show ?thesis
    proof (cases "port s = None \<or> \<not> reader s")
      case stop: True
      have "received ((x # a) @ b) s = (on_value x s)\<lparr>reading := False\<rparr>"
        using True stop received_Cons [of s x "a @ b"] by auto
      moreover have "received (x # a) s = (on_value x s)\<lparr>reading := False\<rparr>"
        using True stop received_Cons [of s x a] by auto
      moreover have "received b ((on_value x s)\<lparr>reading := False\<rparr>)
          = (on_value x s)\<lparr>reading := False\<rparr>"
        by (rule received_idle) simp
      ultimately show ?thesis by simp
    next
      case go: False
      have "received ((x # a) @ b) s = received (a @ b) (on_value x s)"
        using True go received_Cons [of s x "a @ b"] by auto
      also have "\<dots> = received b (received a (on_value x s))"
        by (rule Cons)
      also have "received a (on_value x s) = received (x # a) s"
        using True go received_Cons [of s x a] by auto
      finally show ?thesis .
    qed
  qed
qed

lemma waitForPrompt_received:
  "waitForPrompt timeoutMs startTime ticks s = Some s' \<Longrightarrow>
     \<exists>n \<le> length ticks. s' = received (concat (map arrived (take n ticks))) s"
proof (induction ticks arbitrary: s)
  case Nil
  then show ?case by simp
next
  case (Cons t ts)
  let ?s1 = "received (arrived t) s"
  show ?case
  proof (cases "tick_resolves timeoutMs startTime (LOG_LINES ?s1) (clock t)")
    case True
    with Cons.prems have "s' = received (concat (map arrived (take 1 (t # ts)))) s"
      by (simp add: Let_def)
    then show ?thesis by (intro exI [of _ 1]) simp
  next
    case False
    with Cons.prems have "waitForPrompt timeoutMs startTime ts ?s1 = Some s'"
      by (simp add: Let_def)
    then obtain n where n: "n \<le> length ts"
      and s': "s' = received (concat (map arrived (take n ts))) ?s1"
      using Cons.IH by blast
    from s' have "s' = received (concat (map arrived (take (Suc n) (t # ts)))) s"
      by (simp add: received_append)
    with n show ?thesis by (intro exI [of _ "Suc n"]) simp
  qed
qed

theorem prompt_wait_window_witness:
  "LOG_LINES (received (arrived (tick_at 100)) stale_prompt) = [''ready>''] @ ten_lines
   \<and> length ten_lines = min 10 (length ([''ready>''] @ ten_lines))
   \<and> waitForPrompt 6000 0 [tick_at 100] stale_prompt = None
   \<and> waitForPrompt 6000 0 [tick_at 100, tick_at 6001] stale_prompt = Some stale_prompt
   \<and> waitForPrompt 6000 0 [tick_at 100] (logLine ''$ '' stale_prompt)
       = Some (logLine ''$ '' stale_prompt)"
proof -
  have h: "LOG_LINES (received (arrived (tick_at 100)) stale_prompt) = [''ready>''] @ ten_lines"
    "length ten_lines = min 10 (length ([''ready>''] @ ten_lines))"
    by (simp_all add: tick_at_def received_eval stale_prompt_def ten_lines_def)
  have d: "waitForPrompt 6000 0 [tick_at 100] (logLine ''$ '' stale_prompt)
       = Some (logLine ''$ '' stale_prompt)"
    by (simp add: tick_at_def received_eval tick_resolves_def hasPrompt_def recentLines_def
        isPromptLine_def logLine_def stale_prompt_def ten_lines_def)
  show ?thesis
    using h d prompt_wait_window [OF h, of 6000 0 "[tick_at 6001]"]
      prompt_wait_window [OF h, of 6000 0 "[]"]
    by (simp add: tick_resolves_def ten_lines_def trim_def is_space_def tick_at_def received_eval)
qed

section \<open>The busy flag of \<^verbatim>\<open>connectToPort\<close>\<close>

lemma keeps_flagD: "keeps_flag f \<Longrightarrow> f s = (r, s') \<Longrightarrow> isConnecting s' = isConnecting s"
proof -
  assume k: "keeps_flag f" and e: "f s = (r, s')"
  from k have "isConnecting (snd (f s)) = isConnecting s" by (simp add: keeps_flag_def)
  with e show ?thesis by simp
qed

lemma keeps_seqE:
  assumes "keeps_flag f" and "keeps_flag g"
  shows "keeps_flag (seqE f g)"
  unfolding keeps_flag_def
proof
  fix s
  obtain r s1 where f: "f s = (r, s1)" by (cases "f s")
  with assms(1) have 1: "isConnecting s1 = isConnecting s" by (rule keeps_flagD)
  show "isConnecting (snd (seqE f g s)) = isConnecting s"
  proof (cases r)
    case None
    obtain r' s2 where g: "g s1 = (r', s2)" by (cases "g s1")
    with assms(2) have "isConnecting s2 = isConnecting s1" by (rule keeps_flagD)
    with f None g 1 show ?thesis by (simp add: seqE_def)
  next
    case (Some m)
    with f 1 show ?thesis by (simp add: seqE_def)
  qed
qed

lemma keeps_say: "keeps_flag (say m)"
  by (simp add: keeps_flag_def say_def)

lemma keeps_pause: "keeps_flag (pause cs)"
  by (simp add: keeps_flag_def pause_def)

lemma keeps_write_raw: "keeps_flag (write_raw t err)"
  by (simp add: keeps_flag_def write_raw_def Let_def split: option.splits)

lemma fold_logLine_flag: "isConnecting (fold (\<lambda>l. logLine (f l)) ls s) = isConnecting s"
  by (induction ls arbitrary: s) simp_all

lemma toggle_signals_flag: "isConnecting (toggle_signals e s) = isConnecting s"
  by (simp add: toggle_signals_def Let_def split: option.splits)

lemma keeps_report: "keeps_flag (report_responses n e)"
  by (simp add: keeps_flag_def report_responses_def Let_def fold_logLine_flag toggle_signals_flag)

lemma handshake_flag:
  "performCLIHandshake e s = (r, s') \<Longrightarrow> isConnecting s' = isConnecting s"
proof -
  let ?chain = "seqE (say ''Sending wake-up sequence...'')
          (seqE (write_raw [LF, LF] (wake_error e))
          (seqE (pause (wake_chunks e))
          (seqE (say ''Testing CLI responsiveness with probe commands...'')
          (seqE (write_raw (''help'' @ [CR, LF]) (help_error e))
          (seqE (pause (help_chunks e))
          (seqE (write_raw (''ver'' @ [CR, LF]) (ver_error e))
          (seqE (pause (ver_chunks e))
                (report_responses (length (LOG_LINES s)) e))))))))"
  assume a: "performCLIHandshake e s = (r, s')"
  have k: "keeps_flag ?chain"
    by (intro keeps_seqE keeps_say keeps_pause keeps_write_raw keeps_report)
  from a have "?chain (s\<lparr>lineBuffer := []\<rparr>) = (r, s')"
    by (simp add: performCLIHandshake_def Let_def)
  with k have "isConnecting s' = isConnecting (s\<lparr>lineBuffer := []\<rparr>)"
    by (rule keeps_flagD)
  then show ?thesis by simp
qed

lemma keeps_handshake: "keeps_flag (performCLIHandshake e)"
  unfolding keeps_flag_def
proof
  fix s
  obtain r s' where h: "performCLIHandshake e s = (r, s')" by (cases "performCLIHandshake e s")
  then have "isConnecting s' = isConnecting s" by (rule handshake_flag)
  with h show "isConnecting (snd (performCLIHandshake e s)) = isConnecting s" by simp
qed

lemma seqE_None:
  assumes "seqE f g s = (None, s')"
  shows "\<exists>s1. f s = (None, s1) \<and> g s1 = (None, s')"
proof -
  obtain r s1 where f: "f s = (r, s1)" by (cases "f s")
  show ?thesis
  proof (cases r)
    case None
    with f assms show ?thesis by (simp add: seqE_def)
  next
    case (Some m)
    with f assms show ?thesis by (simp add: seqE_def)
  qed
qed

lemma bring_up_clears:
  assumes "bring_up p e s = (None, s')"
  shows "\<not> isConnecting s'"
proof -
  let ?s5 = "(setupSerialStreams (setup_error e)
      (logLine (pictograph 1 @ '' Waiting for Arduino to initialize (2 seconds)...'')
        (logLine (pictograph 1 @ '' Connected to serial port at 115200 baud.'')
          (s\<lparr>port := Some p\<rparr>))))\<lparr>isConnecting := False\<rparr>"
  let ?s7 = "logLine (pictograph 2 @ '' Testing device responsiveness...'')
      (logLine (pictograph 1 @ '' Serial connection established.'') ?s5)"
  let ?chain = "seqE (performCLIHandshake (handshake e))
          (seqE (say (pictograph 2 @ '' Firmware ready for EEPROM operations''))
          (seqE (say (pictograph 1 @ '' Device initialization completed.''))
          (seqE (say (pictograph 2 @ '' Connection established successfully!''))
                (say (''You can now click '' @ dq @ ''Read Circuit from Board'' @ dq
                   @ '' to scan for components.'')))))"
  have k: "keeps_flag ?chain"
    by (intro keeps_seqE keeps_say keeps_handshake)
  from assms have "?chain ?s7 = (None, s')"
    by (simp add: bring_up_def Let_def)
  with k have "isConnecting s' = isConnecting ?s7" by (rule keeps_flagD)
  then show ?thesis by simp
qed

lemma on_connect_error_clears: "\<not> isConnecting (on_connect_error m s)"
  by (simp add: on_connect_error_def Let_def)

lemma open_selected_clears: "\<not> isConnecting (open_selected selectedPort e s)"
proof (cases selectedPort)
  case None
  then show ?thesis by (simp add: open_selected_def on_connect_error_clears)
next
  case (Some p)
  show ?thesis
  proof (cases "seqE (close_if_open p e) (seqE (open_port p e) (bring_up p e)) s")
    case (Pair r s')
    show ?thesis
    proof (cases r)
      case None
      with Pair obtain s1 where "seqE (open_port p e) (bring_up p e) s1 = (None, s')"
        using seqE_None by blast
      then obtain s2 where "bring_up p e s2 = (None, s')"
        using seqE_None by blast
      then have "\<not> isConnecting s'" by (rule bring_up_clears)
      with Pair None Some show ?thesis by (simp add: open_selected_def)
    next
      case (Some m)
      with Pair \<open>selectedPort = Some p\<close> show ?thesis
        by (simp add: open_selected_def on_connect_error_clears)
    qed
  qed
qed

text \<open>
  The first half of claim C4 holds: a call made while the busy flag is set only logs
  that a connection is in progress; it makes no call on the transport and leaves the
  port and the flag as they are.
\<close>

lemma connect_refused_when_busy:
  assumes "isConnecting s"
  shows "connectToPort comPortSelect e s = (None, logLine ''Connection already in progress...'' s)"
    and "actions (snd (connectToPort comPortSelect e s)) = actions s"
    and "port (snd (connectToPort comPortSelect e s)) = port s"
    and "isConnecting (snd (connectToPort comPortSelect e s))"
  using assms by (simp_all add: connectToPort_def)

text \<open>
  The second half holds on every exit that is a return: on success, when the port
  request is refused, and when closing, opening or the handshake throws inside the
  \<^verbatim>\<open>try\<close> block.
\<close>

lemma connect_returns_flag_clear:
  assumes "\<not> isConnecting s" and "connectToPort comPortSelect e s = (None, s')"
  shows "\<not> isConnecting s'"
proof (cases comPortSelect)
  case None
  with assms show ?thesis by (simp add: connectToPort_def Let_def)
next
  case (Some sel)
  show ?thesis
  proof (cases "length (options sel) = 0 \<or> selectedIndex sel = 0")
    case True
    with assms Some show ?thesis
      by (cases "request_result e")
        (auto simp: connectToPort_def Let_def open_selected_clears)
  next
    case False
    with assms Some show ?thesis
      by (auto simp: connectToPort_def Let_def open_selected_clears split: if_splits)
  qed
qed

text \<open>
  The exits that are not a return: the call throws exactly when the drop-down list is
  null, or when it has entries and the selected index is not 0 and names none of them.
  The busy flag is then left set.
\<close>

lemma connect_throws_flag_set:
  assumes "\<not> isConnecting s" and "connectToPort comPortSelect e s = (Some m, s')"
  shows "isConnecting s'"
    and "comPortSelect = None \<or>
      (\<exists>sel. comPortSelect = Some sel \<and> options sel \<noteq> [] \<and> selectedIndex sel \<noteq> 0
         \<and> (selectedIndex sel < 0 \<or> int (length (options sel)) \<le> selectedIndex sel))"
proof -
  show "isConnecting s'"
  proof (cases comPortSelect)
    case None
    with assms show ?thesis by (auto simp: connectToPort_def Let_def)
  next
    case (Some sel)
    with assms show ?thesis
      by (cases "request_result e") (auto simp: connectToPort_def Let_def split: if_splits)
  qed
  show "comPortSelect = None \<or>
      (\<exists>sel. comPortSelect = Some sel \<and> options sel \<noteq> [] \<and> selectedIndex sel \<noteq> 0
         \<and> (selectedIndex sel < 0 \<or> int (length (options sel)) \<le> selectedIndex sel))"
  proof (cases comPortSelect)
    case None
    then show ?thesis by simp
  next
    case (Some sel)
    with assms show ?thesis
      by (cases "request_result e") (auto simp: connectToPort_def Let_def split: if_splits)
  qed
qed

lemmas connect_eval = connectToPort_def open_selected_def seqE_def close_if_open_def open_port_def
  bring_up_def on_connect_error_def disconnectPort_def teardown_def cancel_reader_def
  await_readable_def close_writer_def await_writable_def clear_streams_def close_port_def
  setupSerialStreams_def stream_assignments_def performCLIHandshake_def write_raw_def
  report_responses_def responsive_def say_def pause_def received_eval readLoop_def listPorts_def
  all_well_def open_fails_def quiet_teardown_def quiet_handshake_def
  placeholder_only_def port1_selected_def none_selected_def

text \<open>
  C4, the code at the failing input. The page has no drop-down list
  (\<^verbatim>\<open>comPortSelect\<close> is null) and no connect attempt is in flight. The call sets the
  busy flag and then throws at \<^verbatim>\<open>comPortSelect.options\<close>, outside every \<^verbatim>\<open>try\<close>: it
  ends with the flag set, where the claim has the flag cleared on every exit path. The
  same happens when the selected index names no entry. A later call, even with a port
  selected, is refused as busy and makes no call on the transport.
\<close>

theorem connect_leaves_flag_set:
  "connectToPort None all_well disconnected0
     = (Some null_select_message, disconnected0\<lparr>isConnecting := True\<rparr>)
   \<and> connectToPort (Some none_selected) all_well disconnected0
     = (Some undefined_option_message, disconnected0\<lparr>isConnecting := True\<rparr>)
   \<and> connectToPort (Some port1_selected) all_well (disconnected0\<lparr>isConnecting := True\<rparr>)
     = (None, logLine ''Connection already in progress...'' (disconnected0\<lparr>isConnecting := True\<rparr>))
   \<and> actions (snd (connectToPort (Some port1_selected) all_well
        (disconnected0\<lparr>isConnecting := True\<rparr>))) = []"
  by (simp add: connectToPort_def Let_def disconnected0_def none_selected_def port1_selected_def
      logLine_def)

text \<open>The transport calls of a failed and of a successful attempt that return.\<close>

lemma connect_failure_example:
  "fst (connectToPort (Some port1_selected) open_fails connected0) = None
   \<and> actions (snd (connectToPort (Some port1_selected) open_fails connected0))
     = [ReaderCancel, WriterClose, PortClose 0, PortOpen 1]
   \<and> port (snd (connectToPort (Some port1_selected) open_fails connected0)) = None
   \<and> \<not> isConnecting (snd (connectToPort (Some port1_selected) open_fails connected0))"
  by (simp add: connect_eval connected0_def act_def logLine_def)

lemma connect_success_example:
  "fst (connectToPort (Some port1_selected) all_well disconnected0) = None
   \<and> actions (snd (connectToPort (Some port1_selected) all_well disconnected0))
     = [PortOpen 1, Write [LF, LF], Write (''help'' @ [CR, LF]), Write (''ver'' @ [CR, LF])]
   \<and> port (snd (connectToPort (Some port1_selected) all_well disconnected0)) = Some 1
   \<and> writer (snd (connectToPort (Some port1_selected) all_well disconnected0))
   \<and> reading (snd (connectToPort (Some port1_selected) all_well disconnected0))
   \<and> \<not> isConnecting (snd (connectToPort (Some port1_selected) all_well disconnected0))"
  by (simp add: connect_eval disconnected0_def act_def logLine_def Let_def trim_def is_space_def)

lemma connect_request_example:
  "fst (connectToPort (Some placeholder_only) all_well disconnected0) = None
   \<and> actions (snd (connectToPort (Some placeholder_only) all_well disconnected0))
     = [RequestPort, PortOpen 1, Write [LF, LF], Write (''help'' @ [CR, LF]),
        Write (''ver'' @ [CR, LF])]
   \<and> \<not> isConnecting (snd (connectToPort (Some placeholder_only) all_well disconnected0))"
  by (simp add: connect_eval disconnected0_def act_def logLine_def Let_def trim_def is_space_def
      show_nat.simps digit_char_def)

section \<open>The retry of the hex dump\<close>

lemma on_value_log: "\<exists>new. LOG_LINES (on_value v s) = LOG_LINES s @ new"
  by (simp add: on_value_def Let_def log_complete_eq)

lemma pending_read_log: "\<exists>new. LOG_LINES (pending_read rs s) = LOG_LINES s @ new"
proof (induction rs arbitrary: s)
  case Nil
  show ?case by simp
next
  case (Cons r rs)
  show ?case
  proof (cases r)
    case (Value v)
    obtain n1 where 1: "LOG_LINES (on_value v s) = LOG_LINES s @ n1"
      using on_value_log by blast
    obtain n2 where 2: "LOG_LINES (pending_read rs (on_value v s)) = LOG_LINES (on_value v s) @ n2"
      using Cons by blast
    from Value 1 2 show ?thesis by (simp add: Let_def)
  next
    case Done
    then show ?thesis by simp
  next
    case (Throws m)
    then show ?thesis by simp
  qed
qed

lemma received_log: "\<exists>new. LOG_LINES (received cs s) = LOG_LINES s @ new"
  using pending_read_log [of "map Value cs" s] by (simp add: received_eval)

lemma sendCommand_log: "\<exists>new. LOG_LINES (snd (sendCommand c e s)) = LOG_LINES s @ new"
proof -
  obtain n1 where 1: "LOG_LINES (received (during_write e) (act (Write (c @ [CR, LF])) s))
      = LOG_LINES s @ n1"
    using received_log [of "during_write e" "act (Write (c @ [CR, LF])) s"] by auto
  obtain n2 where 2: "LOG_LINES (received (during_delay e)
        (received (during_write e) (act (Write (c @ [CR, LF])) s)))
      = LOG_LINES (received (during_write e) (act (Write (c @ [CR, LF])) s)) @ n2"
    using received_log by blast
  show ?thesis
    by (simp add: sendCommand_def Let_def 1 2 split: option.splits)
qed

lemma sendCommand_frame [simp]:
  "port (snd (sendCommand c e s)) = port s"
  "writer (snd (sendCommand c e s)) = writer s"
  "reader (snd (sendCommand c e s)) = reader s"
  "isConnecting (snd (sendCommand c e s)) = isConnecting s"
  by (simp_all add: sendCommand_def Let_def split: option.splits)

lemma sendCommand_writes:
  "port s \<noteq> None \<Longrightarrow> writer s \<Longrightarrow> \<not> isConnecting s \<Longrightarrow>
     actions (snd (sendCommand c e s)) = actions s @ [Write (c @ [CR, LF])]"
  by (auto simp: sendCommand_def Let_def split: option.splits)

lemma first_dump_log: "\<exists>new. LOG_LINES (first_dump e s) = LOG_LINES s @ new"
proof -
  obtain n1 where 1: "LOG_LINES (snd (sendCommand ''hd 0 16'' (dump_send e) s)) = LOG_LINES s @ n1"
    using sendCommand_log by blast
  obtain n2 where 2: "LOG_LINES (first_dump e s)
      = LOG_LINES (snd (sendCommand ''hd 0 16'' (dump_send e) s)) @ n2"
    unfolding first_dump_def using received_log by blast
  from 1 2 show ?thesis by simp
qed

lemma first_dump_new_lines:
  "LOG_LINES (first_dump e s) = LOG_LINES s @ new_lines s (first_dump e s)"
proof -
  obtain new where "LOG_LINES (first_dump e s) = LOG_LINES s @ new"
    using first_dump_log by blast
  then show ?thesis by (simp add: new_lines_def)
qed

lemma count_hex_rows_append: "count_hex_rows (a @ b) = count_hex_rows a + count_hex_rows b"
  by (simp add: count_hex_rows_def)

lemma retry_condition:
  "count_hex_rows (LOG_LINES (first_dump e s)) = count_hex_rows (LOG_LINES s)
     \<longleftrightarrow> count_hex_rows (new_lines s (first_dump e s)) = 0"
proof -
  have "count_hex_rows (LOG_LINES (first_dump e s))
      = count_hex_rows (LOG_LINES s) + count_hex_rows (new_lines s (first_dump e s))"
    using first_dump_new_lines [of e s] count_hex_rows_append by metis
  then show ?thesis by simp
qed

lemma first_dump_frame [simp]:
  "port (first_dump e s) = port s" "writer (first_dump e s) = writer s"
  "isConnecting (first_dump e s) = isConnecting s"
  by (simp_all add: first_dump_def)

lemma first_dump_actions:
  "port s \<noteq> None \<Longrightarrow> writer s \<Longrightarrow> \<not> isConnecting s \<Longrightarrow>
     actions (first_dump e s) = actions s @ [dump_write]"
  by (simp add: first_dump_def sendCommand_writes dump_write_def)

lemma dump_with_retry_actions:
  assumes "port s \<noteq> None" and "writer s" and "\<not> isConnecting s"
  shows "actions (dump_with_retry e s) = actions s @
     (if count_hex_rows (new_lines s (first_dump e s)) = 0
      then [dump_write, dump_write] else [dump_write])"
proof (cases "count_hex_rows (new_lines s (first_dump e s)) = 0")
  case True
  then have c: "count_hex_rows (LOG_LINES (first_dump e s)) = count_hex_rows (LOG_LINES s)"
    by (simp add: retry_condition)
  let ?s2 = "received (retry_delay e) (logLine ''First attempt failed, retrying...'' (first_dump e s))"
  have live: "port ?s2 \<noteq> None" "writer ?s2" "\<not> isConnecting ?s2"
    using assms by simp_all
  have "actions (snd (sendCommand ''hd 0 16'' (retry_send e) ?s2)) = actions ?s2 @ [dump_write]"
    using live by (simp add: sendCommand_writes dump_write_def)
  moreover have "actions ?s2 = actions s @ [dump_write]"
    using assms by (simp add: first_dump_actions)
  ultimately show ?thesis
    using True c by (simp add: dump_with_retry_def Let_def)
next
  case False
  then have "count_hex_rows (LOG_LINES (first_dump e s)) \<noteq> count_hex_rows (LOG_LINES s)"
    by (simp add: retry_condition)
  with False assms show ?thesis
    by (simp add: dump_with_retry_def Let_def first_dump_actions)
qed

lemma select_channel_cases:
  assumes "select_channel mux channel e s = (b, s1)"
  obtains s' where
    "s' = snd (sendCommand (''sm '' @ mux @ '' '' @ show_nat channel) (select_send e)
       (logLine (LF # ''--- MUX '' @ toUpperCase mux @ '', Channel '' @ show_nat channel @ '' ---'') s))"
    and "s1 = s' \<or> (\<exists>m. s1 = logLine m (received (select_wait e) s'))
       \<or> s1 = received (select_wait e) s'"
proof -
  define cmd where "cmd = ''sm '' @ mux @ '' '' @ show_nat channel"
  define s0 where "s0 = logLine (LF # ''--- MUX '' @ toUpperCase mux @ '', Channel '' @ show_nat channel @ '' ---'') s"
  obtain ok s' where r: "sendCommand cmd (select_send e) s0 = (ok, s')"
    by (cases "sendCommand cmd (select_send e) s0")
  have sel: "select_channel mux channel e s =
      (case sendCommand cmd (select_send e) s0 of
         (False, s1) \<Rightarrow> (False, s1)
       | (True, s1) \<Rightarrow>
           let s2 = received (select_wait e) s1;
               recentLog = toLowerCase (join '' '' (last3 (LOG_LINES s2)))
           in if str_includes recentLog ''error'' \<or> str_includes recentLog ''fail''
              then (False, logLine (''Skipping channel '' @ show_nat channel @ '' - MUX selection failed'') s2)
              else (True, s2))"
    unfolding select_channel_def cmd_def s0_def Let_def ..
  have "s1 = s' \<or> (\<exists>m. s1 = logLine m (received (select_wait e) s'))
       \<or> s1 = received (select_wait e) s'"
    using assms unfolding sel r by (cases ok) (auto simp: Let_def split: if_splits)
  moreover have "s' = snd (sendCommand cmd (select_send e) s0)"
    using r by simp
  ultimately show thesis
    using that unfolding cmd_def s0_def by blast
qed

lemma select_channel_frame:
  assumes "select_channel mux channel e s = (b, s1)"
  shows "port s1 = port s \<and> writer s1 = writer s \<and> isConnecting s1 = isConnecting s"
proof -
  from assms obtain s' where
    s': "s' = snd (sendCommand (''sm '' @ mux @ '' '' @ show_nat channel) (select_send e)
       (logLine (LF # ''--- MUX '' @ toUpperCase mux @ '', Channel '' @ show_nat channel @ '' ---'') s))"
    and c: "s1 = s' \<or> (\<exists>m. s1 = logLine m (received (select_wait e) s'))
       \<or> s1 = received (select_wait e) s'"
    by (rule select_channel_cases)
  have "port s' = port s \<and> writer s' = writer s \<and> isConnecting s' = isConnecting s"
    unfolding s' by simp
  with c show ?thesis by auto
qed

lemma select_channel_actions:
  assumes "port s \<noteq> None" and "writer s" and "\<not> isConnecting s"
    and "select_channel mux channel e s = (b, s1)"
  shows "actions s1 = actions s @ [Write (''sm '' @ mux @ '' '' @ show_nat channel @ [CR, LF])]"
proof -
  from assms(4) obtain s' where
    s': "s' = snd (sendCommand (''sm '' @ mux @ '' '' @ show_nat channel) (select_send e)
       (logLine (LF # ''--- MUX '' @ toUpperCase mux @ '', Channel '' @ show_nat channel @ '' ---'') s))"
    and c: "s1 = s' \<or> (\<exists>m. s1 = logLine m (received (select_wait e) s'))
       \<or> s1 = received (select_wait e) s'"
    by (rule select_channel_cases)
  have "actions s' = actions s @ [Write (''sm '' @ mux @ '' '' @ show_nat channel @ [CR, LF])]"
    unfolding s' using assms(1-3) by (simp add: sendCommand_writes)
  with c show ?thesis by auto
qed

lemma read_into_buffer_frame [simp]:
  "port (read_into_buffer e s) = port s" "writer (read_into_buffer e s) = writer s"
  "isConnecting (read_into_buffer e s) = isConnecting s"
  by (simp_all add: read_into_buffer_def Let_def)

lemma read_into_buffer_actions:
  "port s \<noteq> None \<Longrightarrow> writer s \<Longrightarrow> \<not> isConnecting s \<Longrightarrow>
     actions (read_into_buffer e s) = actions s @ [Write (''er 0 64'' @ [CR, LF])]"
  by (simp add: read_into_buffer_def Let_def sendCommand_writes)

lemma scan_channel_dumps_connected:
  assumes "port s \<noteq> None" and "writer s" and "\<not> isConnecting s"
  shows "count_list (new_actions s (scan_channel mux channel e s)) dump_write =
       (case select_channel mux channel e s of
          (False, s1) \<Rightarrow> 0
        | (True, s1) \<Rightarrow>
            if count_hex_rows
                 (new_lines (read_into_buffer e s1) (first_dump e (read_into_buffer e s1))) = 0
            then 2 else 1)"
proof -
  obtain b s1 where sel: "select_channel mux channel e s = (b, s1)"
    by (cases "select_channel mux channel e s")
  have a1: "actions s1 = actions s @ [Write (''sm '' @ mux @ '' '' @ show_nat channel @ [CR, LF])]"
    using assms sel by (rule select_channel_actions)
  have live1: "port s1 \<noteq> None" "writer s1" "\<not> isConnecting s1"
    using select_channel_frame [OF sel] assms by simp_all
  have sm: "Write (''sm '' @ mux @ '' '' @ show_nat channel @ [CR, LF]) \<noteq> dump_write"
    by (simp add: dump_write_def)
  have er: "Write (''er 0 64'' @ [CR, LF]) \<noteq> dump_write"
    by (simp add: dump_write_def)
  show ?thesis
  proof (cases b)
    case False
    with sel a1 sm show ?thesis
      by (simp add: scan_channel_def new_actions_def)
  next
    case True
    let ?s2 = "read_into_buffer e s1"
    have live2: "port ?s2 \<noteq> None" "writer ?s2" "\<not> isConnecting ?s2"
      using live1 by simp_all
    have a2: "actions ?s2 = actions s1 @ [Write (''er 0 64'' @ [CR, LF])]"
      using live1 by (rule read_into_buffer_actions)
    have a3: "actions (dump_with_retry e ?s2) = actions ?s2 @
       (if count_hex_rows (new_lines ?s2 (first_dump e ?s2)) = 0
        then [dump_write, dump_write] else [dump_write])"
      using live2 by (rule dump_with_retry_actions)
    from True sel a1 a2 a3 sm er show ?thesis
      by (simp add: scan_channel_def new_actions_def)
  qed
qed

lemma select_channel_refused:
  assumes "port s = None \<or> \<not> writer s \<or> isConnecting s"
  shows "\<exists>s1. select_channel mux channel e s = (False, s1) \<and> actions s1 = actions s"
proof -
  define s0 where "s0 = logLine (LF # ''--- MUX '' @ toUpperCase mux @ '', Channel '' @ show_nat channel @ '' ---'') s"
  define cmd where "cmd = ''sm '' @ mux @ '' '' @ show_nat channel"
  have g: "port s0 = None \<or> \<not> writer s0 \<or> isConnecting s0"
    using assms by (simp add: s0_def)
  then have r: "sendCommand cmd (select_send e) s0
      = (False, logLine ''Error: Not connected to any port.'' s0)"
    by (auto simp: sendCommand_def)
  have "select_channel mux channel e s = (False, logLine ''Error: Not connected to any port.'' s0)"
    unfolding select_channel_def Let_def
    using r unfolding s0_def cmd_def by simp
  moreover have "actions (logLine ''Error: Not connected to any port.'' s0) = actions s"
    by (simp add: s0_def)
  ultimately show ?thesis by blast
qed

text \<open>
  C5. In the body of the loop for one channel, the hex dump command is written not at
  all when the channel is abandoned at the select command; otherwise it is written
  once when the first attempt added at least one line that matches the hex row pattern
  to the transcript, and twice (the first attempt and exactly one retry) when it added
  none. No channel sees a second retry.
\<close>

theorem one_retry_per_channel:
  "count_list (new_actions s (scan_channel mux channel e s)) dump_write =
     (case select_channel mux channel e s of
        (False, s1) \<Rightarrow> 0
      | (True, s1) \<Rightarrow>
          if count_hex_rows
               (new_lines (read_into_buffer e s1) (first_dump e (read_into_buffer e s1))) = 0
          then 2 else 1)"
proof (cases "port s \<noteq> None \<and> writer s \<and> \<not> isConnecting s")
  case True
  then show ?thesis by (simp add: scan_channel_dumps_connected)
next
  case False
  then have "port s = None \<or> \<not> writer s \<or> isConnecting s" by blast
  then obtain s1 where "select_channel mux channel e s = (False, s1)" and "actions s1 = actions s"
    using select_channel_refused by blast
  then show ?thesis by (simp add: scan_channel_def new_actions_def)
qed

lemmas scan_eval = select_channel_def read_into_buffer_def first_dump_def sendCommand_def
  received_eval on_value_def logLine_def act_def new_lines_def count_hex_rows_def
  quiet_channel_def answering_channel_def quiet_send_def connected0_def
  toLowerCase_def toUpperCase_def lower_char_def upper_char_def capitals_def smalls_def
  last3_def show_nat.simps digit_char_def LF_def CR_def trim_def is_space_def

lemma quiet_select:
  "select_channel ''a'' 0 quiet_channel connected0 =
     (True, selected0)"
  by (simp add: scan_eval selected0_def)

lemma answering_select:
  "select_channel ''a'' 0 answering_channel connected0 =
     (True, selected0)"
  by (simp add: scan_eval selected0_def)

lemma quiet_yield:
  "count_hex_rows (new_lines
     (read_into_buffer quiet_channel
       selected0)
     (first_dump quiet_channel (read_into_buffer quiet_channel
       selected0))) = 0"
  by (simp add: scan_eval rx_eval selected0_def)

lemma answering_yield:
  "count_hex_rows (new_lines
     (read_into_buffer answering_channel
       selected0)
     (first_dump answering_channel (read_into_buffer answering_channel
       selected0))) = 1"
  by (simp add: scan_eval rx_eval selected0_def)

theorem one_retry_per_channel_witness:
  "port connected0 \<noteq> None \<and> writer connected0 \<and> \<not> isConnecting connected0
   \<and> count_list (new_actions connected0 (scan_channel ''a'' 0 quiet_channel connected0)) dump_write = 2
   \<and> count_list (new_actions connected0 (scan_channel ''a'' 0 answering_channel connected0)) dump_write = 1"
proof -
  have h: "port connected0 \<noteq> None" "writer connected0" "\<not> isConnecting connected0"
    by (simp_all add: connected0_def)
  show ?thesis
    using h one_retry_per_channel [of connected0 "''a''" 0 quiet_channel]
      one_retry_per_channel [of connected0 "''a''" 0 answering_channel]
    by (simp add: quiet_select answering_select quiet_yield answering_yield)
qed

section \<open>The diagnosis\<close>

lemma count_line_fields:
  "totalMuxCommands (count_line l t) = totalMuxCommands t + (if is_select_cmd l then 1 else 0)"
  "successfulMuxCommands (count_line l t) = successfulMuxCommands t + (if is_select_ack l then 1 else 0)"
  "totalHexDumps (count_line l t) = totalHexDumps t + (if is_dump_cmd l then 1 else 0)"
  "currentHexDumpHasData (count_line l t) = (is_hex_row l \<or> (\<not> is_dump_cmd l \<and> currentHexDumpHasData t))"
  "successfulHexDumps (count_line l t) = successfulHexDumps t +
     (if is_dump_cmd l \<and> totalHexDumps t > 0 \<and> currentHexDumpHasData t then 1 else 0)"
  by (simp_all add: count_line_def Let_def)

lemma fold_totalMux:
  "totalMuxCommands (fold count_line log t) = totalMuxCommands t + length (filter is_select_cmd log)"
  by (induction log arbitrary: t) (simp_all add: count_line_fields)

lemma fold_successfulMux:
  "successfulMuxCommands (fold count_line log t)
     = successfulMuxCommands t + length (filter is_select_ack log)"
  by (induction log arbitrary: t) (simp_all add: count_line_fields)

lemma fold_closing:
  "closing (fold count_line log t) =
     successfulHexDumps t
     + (if totalHexDumps t > 0
           \<and> (currentHexDumpHasData t \<or> list_ex is_hex_row (takeWhile (\<lambda>x. \<not> is_dump_cmd x) log))
        then 1 else 0)
     + productive_dumps log"
proof (induction log arbitrary: t)
  case Nil
  show ?case by (simp add: closing_def productive_dumps_def)
next
  case (Cons l ls)
  show ?case
  proof (cases "is_dump_cmd l")
    case True
    then show ?thesis
      using Cons [of "count_line l t"]
      by (simp add: count_line_fields productive_dumps_def)
  next
    case False
    then show ?thesis
      using Cons [of "count_line l t"]
      by (simp add: count_line_fields productive_dumps_def)
  qed
qed

text \<open>
  The counters of the loop are the counts of the specification: the lines that match
  the select command, the lines that match an acknowledgement, and the dump commands
  that produced a hex row.
\<close>

lemma tally_log_fields:
  "totalMuxCommands (tally_log log) = length (filter is_select_cmd log)"
  "successfulMuxCommands (tally_log log) = length (filter is_select_ack log)"
  "successfulHexDumps (tally_log log) = productive_dumps log"
proof -
  let ?t = "fold count_line log tally0"
  show "totalMuxCommands (tally_log log) = length (filter is_select_cmd log)"
    using fold_totalMux [of log tally0] by (simp add: tally_log_def Let_def tally0_def)
  show "successfulMuxCommands (tally_log log) = length (filter is_select_ack log)"
    using fold_successfulMux [of log tally0] by (simp add: tally_log_def Let_def tally0_def)
  have "successfulHexDumps (tally_log log) = closing ?t"
    by (simp add: tally_log_def Let_def closing_def)
  also have "\<dots> = productive_dumps log"
    using fold_closing [of log tally0] by (simp add: tally0_def)
  finally show "successfulHexDumps (tally_log log) = productive_dumps log" .
qed

lemma header_neutral:
  "\<not> is_select_cmd analysis_header" "\<not> is_select_ack analysis_header"
  "\<not> is_dump_cmd analysis_header" "\<not> is_hex_row analysis_header"
  "trim analysis_header \<noteq> ''fail''"
  by (simp_all add: analysis_header_def is_select_cmd_def is_select_ack_def is_dump_cmd_def
      rx_eval LF_def trim_def is_space_def)

lemma count_line_header: "count_line analysis_header t = t"
  by (simp add: count_line_def Let_def header_neutral)

lemma tally_log_header: "tally_log (log @ [analysis_header]) = tally_log log"
  by (simp add: tally_log_def count_line_header)

lemma analyze_diagnosis: "fst (analyzeScanFailure s) = diagnose (tally_log (LOG_LINES s))"
  by (simp add: analyzeScanFailure_def Let_def tally_log_header)

text \<open>
  C7. For every transcript with at least one recognized select acknowledgement and no
  dump command that produced a hex row, the diagnosis is \<open>NoDeviceResponse\<close>.
\<close>

theorem acknowledged_without_data:
  assumes "1 \<le> length (filter is_select_ack (LOG_LINES s))"
    and "productive_dumps (LOG_LINES s) = 0"
  shows "fst (analyzeScanFailure s) = NoDeviceResponse"
  using assms by (auto simp: analyze_diagnosis diagnose_def tally_log_fields)

text \<open>
  C6, as the code has it. For every transcript without a recognized select
  acknowledgement, whatever hex rows it holds, the diagnosis is \<open>NoHardwareDetected\<close>
  when no line matches the select command, and \<open>PartialOrIntermittent\<close> when some
  line does.
\<close>

theorem no_acknowledgement:
  assumes "length (filter is_select_ack (LOG_LINES s)) = 0"
  shows "fst (analyzeScanFailure s) =
     (if length (filter is_select_cmd (LOG_LINES s)) = 0 then NoHardwareDetected
      else PartialOrIntermittent)"
  using assms by (simp add: analyze_diagnosis diagnose_def tally_log_fields)

lemmas line_eval = is_select_cmd_def is_select_ack_def is_dump_cmd_def rx_eval

lemma silent_board_counts:
  "length (filter is_select_ack (LOG_LINES silent_board)) = 1"
  "productive_dumps (LOG_LINES silent_board) = 0"
  by (simp_all add: silent_board_def connected0_def productive_dumps_def line_eval)

lemma unacknowledged_counts:
  "length (filter is_select_ack (LOG_LINES unacknowledged)) = 0"
  "length (filter is_select_cmd (LOG_LINES unacknowledged)) = 1"
  by (simp_all add: unacknowledged_def connected0_def line_eval)

lemma dump_only_counts:
  "length (filter is_select_ack (LOG_LINES dump_only)) = 0"
  "length (filter is_select_cmd (LOG_LINES dump_only)) = 0"
  "count_hex_rows (LOG_LINES dump_only) = 1"
  by (simp_all add: dump_only_def connected0_def count_hex_rows_def line_eval)

theorem acknowledged_without_data_witness:
  "1 \<le> length (filter is_select_ack (LOG_LINES silent_board))
   \<and> productive_dumps (LOG_LINES silent_board) = 0
   \<and> fst (analyzeScanFailure silent_board) = NoDeviceResponse"
proof -
  have h: "1 \<le> length (filter is_select_ack (LOG_LINES silent_board))"
    "productive_dumps (LOG_LINES silent_board) = 0"
    by (simp_all add: silent_board_counts)
  show ?thesis
    using h acknowledged_without_data [OF h] by simp
qed

text \<open>
  Claim C6 gives \<open>NoHardwareDetected\<close> to every transcript without acknowledgement. The
  second branch of the analyzer tests the number of select commands, not of
  acknowledgements: a transcript with the echo of one select command and no
  acknowledgement falls through to the last branch.
\<close>

theorem no_acknowledgement_counterexample:
  "length (filter is_select_ack (LOG_LINES unacknowledged)) = 0
   \<and> fst (analyzeScanFailure unacknowledged) \<noteq> NoHardwareDetected"
  by (simp add: analyze_diagnosis diagnose_def tally_log_fields unacknowledged_counts)

theorem no_acknowledgement_witness:
  "length (filter is_select_ack (LOG_LINES dump_only)) = 0
   \<and> count_hex_rows (LOG_LINES dump_only) = 1
   \<and> fst (analyzeScanFailure dump_only) = NoHardwareDetected
   \<and> length (filter is_select_ack (LOG_LINES unacknowledged)) = 0
   \<and> fst (analyzeScanFailure unacknowledged) = PartialOrIntermittent"
proof -
  have h: "length (filter is_select_ack (LOG_LINES dump_only)) = 0"
    "length (filter is_select_ack (LOG_LINES unacknowledged)) = 0"
    by (simp_all add: dump_only_counts unacknowledged_counts)
  show ?thesis
    using h no_acknowledgement [OF h(1)] no_acknowledgement [OF h(2)]
    by (simp add: dump_only_counts unacknowledged_counts)
qed

end
